theory Spec2Isabelle
  imports Main "HOL-Library.Monad_Syntax" "HOL-Library.AList" "HOL-Library.Sublist"
    "HOL-Library.Multiset" "HOL-Library.Multiset_Order"
begin

section \<open>Data model of the simulator\<close>

text \<open>
  The JavaScript classes deriving from \<open>RedstoneComponent\<close>. A component object is a
  bag of fields together with its class; the class decides which method bodies run.
\<close>

datatype cls =
    RedstoneDustComponent
  | RedstoneTorchComponent
  | LeverComponent
  | ButtonComponent
  | RepeaterComponent
  | ComparatorComponent
  | ObserverComponent
  | PistonComponent
  | StickyPistonComponent
  | PistonHeadComponent
  | RedstoneBlockComponent
  | StoneComponent

text \<open>
  The fields the constructors assign. A field that a class does not have is never read
  by the methods of that class; it is carried with an inert value.
\<close>

record component =
  cls :: cls
  powerLevel :: int
  delay :: int
  locked :: bool
  powered :: bool
  mode :: string
  outputPower :: int
  extended :: bool
  isSticky :: bool
  headId :: int
  sourcePistonId :: int

text \<open>
  The \<open>blockState\<close> object of \<open>createEntity\<close>. The fields \<open>extended\<close> and
  \<open>isSticky\<close> are absent (undefined) until a piston assigns them; the source reads them
  only for truthiness, so undefined is \<open>False\<close>.
\<close>

record blockState =
  bs_type :: string
  bs_rotation :: int
  bs_powered :: bool
  bs_powerLevel :: int
  bs_waterlogged :: bool
  bs_extended :: bool
  bs_isSticky :: bool

text \<open>An entity: its component map with the keys position, redstone and blockState.\<close>

record entity =
  position :: "int \<times> int"
  redstone :: "component option"
  blockState :: blockState

text \<open>An entry of \<open>nextTickList\<close>.\<close>

record sched =
  sx :: int
  sy :: int
  time :: int
  priority :: int

text \<open>
  The simulator. \<open>entities\<close> is the JavaScript Map of the entity manager: keys in
  insertion order, which is the order \<open>getBlockEntity\<close> searches.
\<close>

record sim =
  width :: int
  height :: int
  entities :: "(int \<times> entity) list"
  nextId :: int
  tickCount :: int
  nextTickList :: "sched list"

definition RedstoneSimulator :: "int \<Rightarrow> int \<Rightarrow> sim" where
  "RedstoneSimulator w h =
     \<lparr>width = w, height = h, entities = [], nextId = 1, tickCount = 0, nextTickList = []\<rparr>"

section \<open>Directions\<close>

text \<open>\<open>Direction.toVector\<close>; the z coordinate is dropped, the grid code reads x and y only.\<close>

definition toVector :: "int \<Rightarrow> int \<times> int" where
  "toVector dir =
     (if dir = 0 then (0, -1)
      else if dir = 1 then (1, 0)
      else if dir = 2 then (0, 1)
      else if dir = 3 then (-1, 0)
      else (0, 0))"

definition opposite :: "int \<Rightarrow> int" where
  "opposite dir =
     (if dir = 0 then 2
      else if dir = 1 then 3
      else if dir = 2 then 0
      else if dir = 3 then 1
      else if dir = 4 then 5
      else if dir = 5 then 4
      else dir)"

text \<open>JavaScript's \<open>%\<close> with a positive divisor: the sign follows the dividend.\<close>

definition js_rem :: "int \<Rightarrow> int \<Rightarrow> int" where
  "js_rem a b = (if a < 0 then - ((- a) mod b) else a mod b)"

section \<open>Component constructors and the registry\<close>

definition blank :: "cls \<Rightarrow> component" where
  "blank k = \<lparr>cls = k, powerLevel = 0, delay = 0, locked = False, powered = False,
     mode = [], outputPower = 0, extended = False, isSticky = False, headId = 0,
     sourcePistonId = 0\<rparr>"

fun new_component :: "cls \<Rightarrow> component" where
  "new_component RepeaterComponent =
     (blank RepeaterComponent)\<lparr>delay := 1, locked := False, powered := False\<rparr>"
| "new_component ComparatorComponent =
     (blank ComparatorComponent)\<lparr>mode := ''compare'', outputPower := 0\<rparr>"
| "new_component PistonComponent =
     (blank PistonComponent)\<lparr>extended := False, isSticky := False, headId := -1\<rparr>"
| "new_component StickyPistonComponent =
     (blank StickyPistonComponent)\<lparr>extended := False, isSticky := True, headId := -1\<rparr>"
| "new_component PistonHeadComponent =
     (blank PistonHeadComponent)\<lparr>sourcePistonId := -1, isSticky := False\<rparr>"
| "new_component RedstoneBlockComponent = (blank RedstoneBlockComponent)\<lparr>powerLevel := 15\<rparr>"
| "new_component k = blank k"

text \<open>\<open>initComponentRegistry\<close>: the twelve registered type strings.\<close>

definition componentRegistry :: "string \<Rightarrow> cls option" where
  "componentRegistry ty =
     (if ty = ''minecraft:redstone_dust'' then Some RedstoneDustComponent
      else if ty = ''minecraft:redstone_torch'' then Some RedstoneTorchComponent
      else if ty = ''minecraft:lever'' then Some LeverComponent
      else if ty = ''minecraft:button'' then Some ButtonComponent
      else if ty = ''minecraft:repeater'' then Some RepeaterComponent
      else if ty = ''minecraft:comparator'' then Some ComparatorComponent
      else if ty = ''minecraft:observer'' then Some ObserverComponent
      else if ty = ''minecraft:piston'' then Some PistonComponent
      else if ty = ''minecraft:sticky_piston'' then Some StickyPistonComponent
      else if ty = ''minecraft:piston_head'' then Some PistonHeadComponent
      else if ty = ''minecraft:redstone_block'' then Some RedstoneBlockComponent
      else if ty = ''minecraft:stone'' then Some StoneComponent
      else None)"

section \<open>Entity store\<close>

text \<open>\<open>getBlockEntity\<close>: the first entity, in insertion order, whose position is the cell.\<close>

definition getBlockEntity :: "sim \<Rightarrow> int \<Rightarrow> int \<Rightarrow> (int \<times> entity) option" where
  "getBlockEntity s x y = find (\<lambda>(i, e). position e = (x, y)) (entities s)"

definition removeEntity :: "int \<Rightarrow> sim \<Rightarrow> sim" where
  "removeEntity i s = s\<lparr>entities := AList.delete i (entities s)\<rparr>"

text \<open>An assignment to a field of the component object of entity \<open>me\<close> (the \<open>this\<close> of a method).\<close>

definition setThis :: "int \<Rightarrow> (component \<Rightarrow> component) \<Rightarrow> sim \<Rightarrow> sim" where
  "setThis me f s =
     s\<lparr>entities := AList.map_entry me (\<lambda>e. e\<lparr>redstone := map_option f (redstone e)\<rparr>) (entities s)\<rparr>"

definition setBlockState :: "int \<Rightarrow> (blockState \<Rightarrow> blockState) \<Rightarrow> sim \<Rightarrow> sim" where
  "setBlockState i f s =
     s\<lparr>entities := AList.map_entry i (\<lambda>e. e\<lparr>blockState := f (blockState e)\<rparr>) (entities s)\<rparr>"

definition setPosition :: "int \<Rightarrow> int \<times> int \<Rightarrow> sim \<Rightarrow> sim" where
  "setPosition i p s = s\<lparr>entities := AList.map_entry i (\<lambda>e. e\<lparr>position := p\<rparr>) (entities s)\<rparr>"

text \<open>\<open>updateBlockState\<close>: \<open>Object.assign\<close> on the blockState of the block found at the cell.\<close>

definition updateBlockState :: "int \<Rightarrow> int \<Rightarrow> (blockState \<Rightarrow> blockState) \<Rightarrow> sim \<Rightarrow> sim" where
  "updateBlockState x y f s =
     (case getBlockEntity s x y of None \<Rightarrow> s | Some (i, e) \<Rightarrow> setBlockState i f s)"

text \<open>
  Reading \<open>entity.components.get('blockState').rotation\<close> of the block at a cell. With no
  block there the source dereferences undefined and throws; \<open>None\<close> is that exception.
\<close>

definition rotationAt :: "sim \<Rightarrow> int \<Rightarrow> int \<Rightarrow> int option" where
  "rotationAt s x y = map_option (\<lambda>(i, e). bs_rotation (blockState e)) (getBlockEntity s x y)"

section \<open>Scheduler queue\<close>

definition scheduleBlockUpdate :: "int \<Rightarrow> int \<Rightarrow> int \<Rightarrow> int \<Rightarrow> sim \<Rightarrow> sim" where
  "scheduleBlockUpdate x y d prio s =
     s\<lparr>nextTickList := nextTickList s @ [\<lparr>sx = x, sy = y, time = tickCount s + d, priority = prio\<rparr>]\<rparr>"

section \<open>Power queries\<close>

text \<open>The wall-torch table shared by the torch's scheduled tick and its power output.\<close>

definition attachedDir :: "int \<Rightarrow> int" where
  "attachedDir rotation =
     (if rotation = 0 then 2
      else if rotation = 1 then 3
      else if rotation = 2 then 0
      else if rotation = 3 then 1
      else 2)"

text \<open>\<open>getPowerOutput\<close> of component \<open>c\<close> standing at the cell, by class.\<close>

definition getPowerOutput :: "sim \<Rightarrow> int \<Rightarrow> int \<Rightarrow> int \<Rightarrow> component \<Rightarrow> int option" where
  "getPowerOutput s x y toDirection c =
     (case cls c of
        RedstoneDustComponent \<Rightarrow> Some (powerLevel c)
      | RedstoneTorchComponent \<Rightarrow>
          do { rotation \<leftarrow> rotationAt s x y;
               if toDirection = attachedDir rotation then Some 0 else Some (powerLevel c) }
      | LeverComponent \<Rightarrow> Some (powerLevel c)
      | ButtonComponent \<Rightarrow> Some (powerLevel c)
      | RepeaterComponent \<Rightarrow>
          do { rotation \<leftarrow> rotationAt s x y;
               if toDirection = rotation then Some (powerLevel c) else Some 0 }
      | ComparatorComponent \<Rightarrow>
          do { rotation \<leftarrow> rotationAt s x y;
               if toDirection = rotation then Some (outputPower c) else Some 0 }
      | ObserverComponent \<Rightarrow>
          do { rotation \<leftarrow> rotationAt s x y;
               if toDirection = js_rem (rotation + 2) 4 then Some (powerLevel c) else Some 0 }
      | RedstoneBlockComponent \<Rightarrow> Some 15
      | _ \<Rightarrow> Some 0)"

definition getPower :: "sim \<Rightarrow> int \<Rightarrow> int \<Rightarrow> int \<Rightarrow> int option" where
  "getPower s x y fromDirection =
     (let (vx, vy) = toVector fromDirection; sourceX = x + vx; sourceY = y + vy
      in case getBlockEntity s sourceX sourceY of
           None \<Rightarrow> Some 0
         | Some (i, e) \<Rightarrow>
             (case redstone e of
                None \<Rightarrow> Some 0
              | Some c \<Rightarrow> getPowerOutput s sourceX sourceY (opposite fromDirection) c))"

definition getMaxNeighborPower :: "sim \<Rightarrow> int \<Rightarrow> int \<Rightarrow> int option" where
  "getMaxNeighborPower s x y =
     do { p0 \<leftarrow> getPower s x y 0;
          p1 \<leftarrow> getPower s x y 1;
          p2 \<leftarrow> getPower s x y 2;
          p3 \<leftarrow> getPower s x y 3;
          Some (max (max (max (max 0 p0) p1) p2) p3) }"

definition checkQuasiConnectivity :: "sim \<Rightarrow> int \<Rightarrow> int \<Rightarrow> bool" where
  "checkQuasiConnectivity s x y = False"

section \<open>Neighbor updates\<close>

text \<open>\<open>RepeaterComponent.getRepeaterInput\<close>: only repeaters and comparators lock a repeater.\<close>

definition getRepeaterInput :: "sim \<Rightarrow> int \<Rightarrow> int \<Rightarrow> int \<Rightarrow> int option" where
  "getRepeaterInput s x y fromDirection =
     (let (vx, vy) = toVector fromDirection; sourceX = x + vx; sourceY = y + vy
      in case getBlockEntity s sourceX sourceY of
           None \<Rightarrow> Some 0
         | Some (i, e) \<Rightarrow>
             (case redstone e of
                None \<Rightarrow> Some 0
              | Some r \<Rightarrow>
                  if cls r = RepeaterComponent \<or> cls r = ComparatorComponent
                  then getPowerOutput s sourceX sourceY (opposite fromDirection) r
                  else Some 0))"

definition RepeaterComponent_onNeighborUpdate ::
  "int \<Rightarrow> component \<Rightarrow> int \<Rightarrow> int \<Rightarrow> sim \<Rightarrow> sim option" where
  "RepeaterComponent_onNeighborUpdate me c x y s =
     do { rotation \<leftarrow> rotationAt s x y;
          powerLeft \<leftarrow> getRepeaterInput s x y (js_rem (rotation + 3) 4);
          powerRight \<leftarrow> getRepeaterInput s x y (js_rem (rotation + 1) 4);
          let lk = (powerLeft > 0 \<or> powerRight > 0);
          let s1 = setThis me (\<lambda>r. r\<lparr>locked := lk\<rparr>) s;
          if lk then Some s1
          else do {
            inputPower \<leftarrow> getPower s1 x y (js_rem (rotation + 2) 4);
            let shouldBePowered = (inputPower > 0);
            if shouldBePowered \<and> \<not> powered c then Some (scheduleBlockUpdate x y (delay c * 2) 0 s1)
            else if \<not> shouldBePowered \<and> powered c then Some (scheduleBlockUpdate x y (delay c * 2) 0 s1)
            else Some s1 } }"

definition ObserverComponent_onNeighborUpdate ::
  "int \<Rightarrow> int \<Rightarrow> int \<Rightarrow> int \<Rightarrow> sim \<Rightarrow> sim option" where
  "ObserverComponent_onNeighborUpdate x y neighborX neighborY s =
     do { rotation \<leftarrow> rotationAt s x y;
          let (vx, vy) = toVector rotation;
          if neighborX = x + vx \<and> neighborY = y + vy then Some (scheduleBlockUpdate x y 2 0 s)
          else Some s }"

definition PistonComponent_onNeighborUpdate :: "component \<Rightarrow> int \<Rightarrow> int \<Rightarrow> sim \<Rightarrow> sim option" where
  "PistonComponent_onNeighborUpdate c x y s =
     do { maxPower \<leftarrow> getMaxNeighborPower s x y;
          let shouldExtend = (maxPower > 0 \<or> checkQuasiConnectivity s x y);
          if shouldExtend \<and> \<not> extended c then Some (scheduleBlockUpdate x y 2 0 s)
          else if \<not> shouldExtend \<and> extended c then Some (scheduleBlockUpdate x y 2 0 s)
          else Some s }"

text \<open>The body of the wire's \<open>forEach\<close>: one neighbor's contribution to \<open>maxPower\<close>.\<close>

definition dustInput :: "sim \<Rightarrow> int \<Rightarrow> int \<Rightarrow> int \<Rightarrow> int \<Rightarrow> int option" where
  "dustInput s x y dir maxPower =
     (let (vx, vy) = toVector dir; nx = x + vx; ny = y + vy
      in case getBlockEntity s nx ny of
           None \<Rightarrow> Some maxPower
         | Some (i, e) \<Rightarrow>
             (case redstone e of
                None \<Rightarrow> Some maxPower
              | Some r \<Rightarrow>
                  if cls r = RedstoneDustComponent then Some (max maxPower (powerLevel r - 1))
                  else map_option (max maxPower) (getPowerOutput s nx ny (opposite dir) r)))"

definition dustMaxPower :: "sim \<Rightarrow> int \<Rightarrow> int \<Rightarrow> int option" where
  "dustMaxPower s x y =
     do { m0 \<leftarrow> dustInput s x y 0 0;
          m1 \<leftarrow> dustInput s x y 1 m0;
          m2 \<leftarrow> dustInput s x y 2 m1;
          dustInput s x y 3 m2 }"

text \<open>The wire's assignment of a new level: the field and the visual state.\<close>

definition dustAssign :: "int \<Rightarrow> int \<Rightarrow> int \<Rightarrow> int \<Rightarrow> sim \<Rightarrow> sim" where
  "dustAssign me x y maxPower s =
     updateBlockState x y (\<lambda>b. b\<lparr>bs_powerLevel := maxPower\<rparr>)
       (setThis me (\<lambda>r. r\<lparr>powerLevel := maxPower\<rparr>) s)"

text \<open>
  \<open>notifyNeighbors\<close> and the \<open>onNeighborUpdate\<close> it dispatches call each other without
  bound. The method bodies are written over the \<open>notifyNeighbors\<close> they call
  (\<open>notify\<close>), and \<open>notifyNeighbors\<close> closes the recursion with a bound on the depth of
  nested calls, as the call stack does; \<open>None\<close> is the exception thrown when it is
  exhausted (or by a read of a missing block). \<open>me\<close> is the entity whose component is
  \<open>this\<close>, \<open>c\<close> that component when the method is entered.
\<close>

definition RedstoneDustComponent_onNeighborUpdate ::
  "(int \<Rightarrow> int \<Rightarrow> sim \<Rightarrow> sim option) \<Rightarrow> int \<Rightarrow> component \<Rightarrow> int \<Rightarrow> int \<Rightarrow> sim \<Rightarrow> sim option" where
  "RedstoneDustComponent_onNeighborUpdate notify me c x y s =
     do { maxPower \<leftarrow> dustMaxPower s x y;
          if powerLevel c \<noteq> maxPower then notify x y (dustAssign me x y maxPower s)
          else Some s }"

definition onNeighborUpdate_body ::
  "(int \<Rightarrow> int \<Rightarrow> sim \<Rightarrow> sim option) \<Rightarrow> int \<Rightarrow> component \<Rightarrow> int \<Rightarrow> int \<Rightarrow> int \<Rightarrow> int \<Rightarrow> sim
   \<Rightarrow> sim option" where
  "onNeighborUpdate_body notify me c x y neighborX neighborY s =
     (case cls c of
        RedstoneDustComponent \<Rightarrow> RedstoneDustComponent_onNeighborUpdate notify me c x y s
      | RedstoneTorchComponent \<Rightarrow> Some (scheduleBlockUpdate x y 2 0 s)
      | RepeaterComponent \<Rightarrow> RepeaterComponent_onNeighborUpdate me c x y s
      | ComparatorComponent \<Rightarrow> Some (scheduleBlockUpdate x y 0 0 s)
      | ObserverComponent \<Rightarrow> ObserverComponent_onNeighborUpdate x y neighborX neighborY s
      | PistonComponent \<Rightarrow> PistonComponent_onNeighborUpdate c x y s
      | StickyPistonComponent \<Rightarrow> PistonComponent_onNeighborUpdate c x y s
      | _ \<Rightarrow> Some s)"

text \<open>The body of the \<open>forEach\<close> of \<open>notifyNeighbors\<close>, for one direction.\<close>

definition notifyDir_body ::
  "(int \<Rightarrow> int \<Rightarrow> sim \<Rightarrow> sim option) \<Rightarrow> int \<Rightarrow> int \<Rightarrow> int \<Rightarrow> sim \<Rightarrow> sim option" where
  "notifyDir_body notify x y dir s =
     (let (vx, vy) = toVector dir; nx = x + vx; ny = y + vy
      in case getBlockEntity s nx ny of
           None \<Rightarrow> Some s
         | Some (i, e) \<Rightarrow>
             (case redstone e of
                None \<Rightarrow> Some s
              | Some c \<Rightarrow> onNeighborUpdate_body notify i c nx ny x y s))"

primrec notifyNeighbors :: "nat \<Rightarrow> int \<Rightarrow> int \<Rightarrow> sim \<Rightarrow> sim option" where
  "notifyNeighbors 0 x y s = None"
| "notifyNeighbors (Suc n) x y s =
     do { s0 \<leftarrow> notifyDir_body (notifyNeighbors n) x y 0 s;
          s1 \<leftarrow> notifyDir_body (notifyNeighbors n) x y 1 s0;
          s2 \<leftarrow> notifyDir_body (notifyNeighbors n) x y 2 s1;
          notifyDir_body (notifyNeighbors n) x y 3 s2 }"

definition onNeighborUpdate ::
  "nat \<Rightarrow> int \<Rightarrow> component \<Rightarrow> int \<Rightarrow> int \<Rightarrow> int \<Rightarrow> int \<Rightarrow> sim \<Rightarrow> sim option" where
  "onNeighborUpdate n = onNeighborUpdate_body (notifyNeighbors n)"

text \<open>\<open>onPlaced\<close>: the torch schedules its first check, every other class runs its own
  \<open>onNeighborUpdate\<close> with itself as the neighbor.\<close>

definition onPlaced :: "nat \<Rightarrow> int \<Rightarrow> component \<Rightarrow> int \<Rightarrow> int \<Rightarrow> sim \<Rightarrow> sim option" where
  "onPlaced n me c x y s =
     (if cls c = RedstoneTorchComponent then Some (scheduleBlockUpdate x y 2 0 s)
      else onNeighborUpdate n me c x y x y s)"

text \<open>The entity \<open>createEntity\<close> builds: position, the registered component, blockState.\<close>

definition newEntity :: "string \<Rightarrow> int \<Rightarrow> int \<Rightarrow> entity" where
  "newEntity type x y =
     \<lparr>position = (x, y), redstone = map_option new_component (componentRegistry type),
      blockState = \<lparr>bs_type = type, bs_rotation = 0, bs_powered = False, bs_powerLevel = 0,
        bs_waterlogged = False, bs_extended = False, bs_isSticky = False\<rparr>\<rparr>"

definition createEntity :: "nat \<Rightarrow> string \<Rightarrow> int \<Rightarrow> int \<Rightarrow> sim \<Rightarrow> (int \<times> sim) option" where
  "createEntity n type x y s =
     (let entityId = nextId s;
          s1 = s\<lparr>nextId := entityId + 1,
                 entities := AList.update entityId (newEntity type x y) (entities s)\<rparr>
      in case redstone (newEntity type x y) of
           None \<Rightarrow> Some (entityId, s1)
         | Some c \<Rightarrow> map_option (Pair entityId) (onPlaced n entityId c x y s1))"

section \<open>Piston motion\<close>

text \<open>The \<open>while (true)\<close> of \<open>canPush\<close>; it ends because \<open>count\<close> stops it at 12.\<close>

function canPush_loop :: "sim \<Rightarrow> int \<times> int \<Rightarrow> int \<Rightarrow> int \<Rightarrow> nat \<Rightarrow> bool" where
  "\<And>count. canPush_loop s vec cx cy count =
     (case getBlockEntity s cx cy of
        None \<Rightarrow> True
      | Some (i, e) \<Rightarrow>
          if bs_type (blockState e) = ''minecraft:obsidian''
             \<or> bs_type (blockState e) = ''minecraft:bedrock''
             \<or> bs_type (blockState e) = ''minecraft:piston_head'' then False
          else if (bs_type (blockState e) = ''minecraft:piston''
                   \<or> bs_type (blockState e) = ''minecraft:sticky_piston'')
                  \<and> bs_extended (blockState e) then False
          else if count + 1 \<ge> 12 then False
          else canPush_loop s vec (cx + fst vec) (cy + snd vec) (count + 1))"
  by pat_completeness auto
termination
  by (relation "measure (\<lambda>(s, vec, cx, cy, count). 12 - count)") auto

declare canPush_loop.simps [simp del]

definition canPush :: "sim \<Rightarrow> int \<Rightarrow> int \<Rightarrow> int \<Rightarrow> bool" where
  "canPush s x y direction =
     canPush_loop s (toVector direction)
       (x + fst (toVector direction)) (y + snd (toVector direction)) 0"

text \<open>
  The first loop of \<open>doPush\<close> collects \<open>{id, x, y}\<close> of every block up to the first empty
  cell. Nothing in it bounds the walk, so it is a partial function: \<open>None\<close> is a loop that
  does not end.
\<close>

partial_function (option) collectStack ::
  "sim \<Rightarrow> int \<times> int \<Rightarrow> int \<Rightarrow> int \<Rightarrow> (int \<times> int \<times> int) list \<Rightarrow> (int \<times> int \<times> int) list option"
where
  "collectStack s vec cx cy stack =
     (case getBlockEntity s cx cy of
        None \<Rightarrow> Some stack
      | Some (i, e) \<Rightarrow> collectStack s vec (cx + fst vec) (cy + snd vec) (stack @ [(i, cx, cy)]))"

declare collectStack.simps [code]

text \<open>One iteration of the second loop of \<open>doPush\<close>: move one block and notify both cells.\<close>

definition moveItem :: "nat \<Rightarrow> int \<times> int \<Rightarrow> int \<times> int \<times> int \<Rightarrow> sim \<Rightarrow> sim option" where
  "moveItem n vec item s =
     (case item of (i, ix, iy) \<Rightarrow>
        (case map_of (entities s) i of
           None \<Rightarrow> None
         | Some e \<Rightarrow>
             do { s1 \<leftarrow> notifyNeighbors n ix iy (setPosition i (ix + fst vec, iy + snd vec) s);
                  notifyNeighbors n (ix + fst vec) (iy + snd vec) s1 }))"

fun moveStack :: "nat \<Rightarrow> int \<times> int \<Rightarrow> (int \<times> int \<times> int) list \<Rightarrow> sim \<Rightarrow> sim option" where
  "moveStack n vec [] s = Some s"
| "moveStack n vec (item # rest) s = do { s1 \<leftarrow> moveItem n vec item s; moveStack n vec rest s1 }"

definition doPush :: "nat \<Rightarrow> int \<Rightarrow> int \<Rightarrow> int \<Rightarrow> sim \<Rightarrow> sim option" where
  "doPush n x y direction s =
     do { stack \<leftarrow> collectStack s (toVector direction)
                     (x + fst (toVector direction)) (y + snd (toVector direction)) [];
          moveStack n (toVector direction) (rev stack) s }"

text \<open>The movability test that \<open>doPull\<close> repeats from \<open>canPush\<close>.\<close>

definition immovable :: "blockState \<Rightarrow> bool" where
  "immovable b \<longleftrightarrow>
     bs_type b = ''minecraft:obsidian'' \<or> bs_type b = ''minecraft:bedrock''
     \<or> bs_type b = ''minecraft:piston_head''
     \<or> ((bs_type b = ''minecraft:piston'' \<or> bs_type b = ''minecraft:sticky_piston'')
        \<and> bs_extended b)"

definition doPull :: "nat \<Rightarrow> int \<Rightarrow> int \<Rightarrow> int \<Rightarrow> sim \<Rightarrow> sim option" where
  "doPull n x y direction s =
     (let (vx, vy) = toVector direction; targetX = x + vx * 2; targetY = y + vy * 2
      in case getBlockEntity s targetX targetY of
           None \<Rightarrow> Some s
         | Some (i, e) \<Rightarrow>
             if immovable (blockState e) then Some s
             else do { s1 \<leftarrow> notifyNeighbors n targetX targetY (setPosition i (x + vx, y + vy) s);
                       notifyNeighbors n (x + vx) (y + vy) s1 })"

text \<open>
  \<open>PistonComponent.extend\<close>. \<open>pid\<close> is \<open>entity.id\<close> of the block found at the piston's
  cell, \<open>me\<close> the entity of \<open>this\<close>.
\<close>

definition extend :: "nat \<Rightarrow> int \<Rightarrow> component \<Rightarrow> int \<Rightarrow> int \<Rightarrow> sim \<Rightarrow> sim option" where
  "extend n me c x y s =
     (if extended c then Some s
      else case getBlockEntity s x y of
        None \<Rightarrow> None
      | Some (pid, e) \<Rightarrow>
          (let rotation = bs_rotation (blockState e); (vx, vy) = toVector rotation
           in if canPush s x y rotation
              then do {
                s1 \<leftarrow> doPush n x y rotation s;
                let s2 = updateBlockState x y (\<lambda>b. b\<lparr>bs_extended := True\<rparr>)
                           (setThis me (\<lambda>r. r\<lparr>extended := True\<rparr>) s1);
                let headX = x + vx;
                let headY = y + vy;
                let s3 = (case getBlockEntity s2 headX headY of
                            None \<Rightarrow> s2 | Some (j, ex) \<Rightarrow> removeEntity j s2);
                (hid, s4) \<leftarrow> createEntity n ''minecraft:piston_head'' headX headY s3;
                let s5 = setThis hid (\<lambda>h. h\<lparr>sourcePistonId := pid, isSticky := isSticky c\<rparr>) s4;
                let s6 = setBlockState hid
                           (\<lambda>b. b\<lparr>bs_rotation := rotation, bs_isSticky := isSticky c\<rparr>) s5;
                let s7 = setThis me (\<lambda>r. r\<lparr>headId := hid\<rparr>) s6;
                notifyNeighbors n headX headY s7 }
              else Some s))"

definition retract :: "nat \<Rightarrow> int \<Rightarrow> component \<Rightarrow> int \<Rightarrow> int \<Rightarrow> sim \<Rightarrow> sim option" where
  "retract n me c x y s =
     (if \<not> extended c then Some s
      else case getBlockEntity s x y of
        None \<Rightarrow> None
      | Some (pid, e) \<Rightarrow>
          (let rotation = bs_rotation (blockState e); (vx, vy) = toVector rotation;
               s1 = updateBlockState x y (\<lambda>b. b\<lparr>bs_extended := False\<rparr>)
                      (setThis me (\<lambda>r. r\<lparr>extended := False\<rparr>) s)
           in do {
                s2 \<leftarrow> (if headId c \<noteq> -1
                       then notifyNeighbors n (x + vx) (y + vy)
                              (setThis me (\<lambda>r. r\<lparr>headId := -1\<rparr>) (removeEntity (headId c) s1))
                       else Some s1);
                if isSticky c then doPull n x y rotation s2 else Some s2 }))"

definition PistonComponent_onScheduledTick ::
  "nat \<Rightarrow> int \<Rightarrow> component \<Rightarrow> int \<Rightarrow> int \<Rightarrow> sim \<Rightarrow> sim option" where
  "PistonComponent_onScheduledTick n me c x y s =
     do { maxPower \<leftarrow> getMaxNeighborPower s x y;
          let shouldExtend = (maxPower > 0);
          if shouldExtend \<and> \<not> extended c then extend n me c x y s
          else if \<not> shouldExtend \<and> extended c then retract n me c x y s
          else Some s }"

section \<open>Scheduled ticks of the other classes\<close>

definition RedstoneTorchComponent_onScheduledTick ::
  "nat \<Rightarrow> int \<Rightarrow> component \<Rightarrow> int \<Rightarrow> int \<Rightarrow> sim \<Rightarrow> sim option" where
  "RedstoneTorchComponent_onScheduledTick n me c x y s =
     do { rotation \<leftarrow> rotationAt s x y;
          inputPower \<leftarrow> getPower s x y (attachedDir rotation);
          let shouldBeOff = (inputPower > 0);
          let isOff = (powerLevel c = 0);
          if shouldBeOff \<and> \<not> isOff
          then notifyNeighbors n x y
                 (updateBlockState x y (\<lambda>b. b\<lparr>bs_type := ''minecraft:redstone_torch_off''\<rparr>)
                    (setThis me (\<lambda>r. r\<lparr>powerLevel := 0\<rparr>) s))
          else if \<not> shouldBeOff \<and> isOff
          then notifyNeighbors n x y
                 (updateBlockState x y (\<lambda>b. b\<lparr>bs_type := ''minecraft:redstone_torch''\<rparr>)
                    (setThis me (\<lambda>r. r\<lparr>powerLevel := 15\<rparr>) s))
          else Some s }"

definition ButtonComponent_onScheduledTick ::
  "nat \<Rightarrow> int \<Rightarrow> int \<Rightarrow> int \<Rightarrow> sim \<Rightarrow> sim option" where
  "ButtonComponent_onScheduledTick n me x y s =
     notifyNeighbors n x y
       (updateBlockState x y (\<lambda>b. b\<lparr>bs_powered := False\<rparr>)
          (setThis me (\<lambda>r. r\<lparr>powerLevel := 0\<rparr>) s))"

text \<open>The assignments of the repeater's scheduled tick, before it notifies.\<close>

definition repeaterCommit :: "int \<Rightarrow> int \<Rightarrow> int \<Rightarrow> bool \<Rightarrow> sim \<Rightarrow> sim" where
  "repeaterCommit me x y shouldBePowered s =
     updateBlockState x y
       (\<lambda>b. b\<lparr>bs_type := (if shouldBePowered then ''minecraft:repeater_on'' else ''minecraft:repeater''),
              bs_powered := shouldBePowered\<rparr>)
       (setThis me (\<lambda>r. r\<lparr>powered := shouldBePowered,
                          powerLevel := (if shouldBePowered then 15 else 0)\<rparr>) s)"

definition RepeaterComponent_onScheduledTick ::
  "nat \<Rightarrow> int \<Rightarrow> component \<Rightarrow> int \<Rightarrow> int \<Rightarrow> sim \<Rightarrow> sim option" where
  "RepeaterComponent_onScheduledTick n me c x y s =
     (if locked c then Some s
      else do { rotation \<leftarrow> rotationAt s x y;
                inputPower \<leftarrow> getPower s x y (js_rem (rotation + 2) 4);
                notifyNeighbors n x y (repeaterCommit me x y (inputPower > 0) s) })"

text \<open>\<open>newPower\<close> of the comparator's scheduled tick.\<close>

definition comparatorNewPower :: "string \<Rightarrow> int \<Rightarrow> int \<Rightarrow> int" where
  "comparatorNewPower m rearPower sidePower =
     (if m = ''subtract'' then max 0 (rearPower - sidePower)
      else if rearPower \<ge> sidePower then rearPower else 0)"

definition ComparatorComponent_onScheduledTick ::
  "nat \<Rightarrow> int \<Rightarrow> component \<Rightarrow> int \<Rightarrow> int \<Rightarrow> sim \<Rightarrow> sim option" where
  "ComparatorComponent_onScheduledTick n me c x y s =
     do { rotation \<leftarrow> rotationAt s x y;
          rearPower \<leftarrow> getPower s x y (js_rem (rotation + 2) 4);
          leftPower \<leftarrow> getPower s x y (js_rem (rotation + 3) 4);
          rightPower \<leftarrow> getPower s x y (js_rem (rotation + 1) 4);
          let newPower = comparatorNewPower (mode c) rearPower (max leftPower rightPower);
          if outputPower c \<noteq> newPower
          then notifyNeighbors n x y
                 (updateBlockState x y
                    (\<lambda>b. b\<lparr>bs_type := (if newPower > 0 then ''minecraft:comparator_on''
                                        else ''minecraft:comparator''),
                           bs_powerLevel := newPower\<rparr>)
                    (setThis me (\<lambda>r. r\<lparr>outputPower := newPower, powerLevel := newPower\<rparr>) s))
          else Some s }"

definition ObserverComponent_onScheduledTick ::
  "nat \<Rightarrow> int \<Rightarrow> component \<Rightarrow> int \<Rightarrow> int \<Rightarrow> sim \<Rightarrow> sim option" where
  "ObserverComponent_onScheduledTick n me c x y s =
     (if powerLevel c = 0
      then do { s1 \<leftarrow> notifyNeighbors n x y
                       (updateBlockState x y (\<lambda>b. b\<lparr>bs_type := ''minecraft:observer_on''\<rparr>)
                          (setThis me (\<lambda>r. r\<lparr>powerLevel := 15\<rparr>) s));
                Some (scheduleBlockUpdate x y 2 0 s1) }
      else notifyNeighbors n x y
             (updateBlockState x y (\<lambda>b. b\<lparr>bs_type := ''minecraft:observer''\<rparr>)
                (setThis me (\<lambda>r. r\<lparr>powerLevel := 0\<rparr>) s)))"

definition onScheduledTick ::
  "nat \<Rightarrow> int \<Rightarrow> component \<Rightarrow> int \<Rightarrow> int \<Rightarrow> sim \<Rightarrow> sim option" where
  "onScheduledTick n me c x y s =
     (case cls c of
        RedstoneTorchComponent \<Rightarrow> RedstoneTorchComponent_onScheduledTick n me c x y s
      | ButtonComponent \<Rightarrow> ButtonComponent_onScheduledTick n me x y s
      | RepeaterComponent \<Rightarrow> RepeaterComponent_onScheduledTick n me c x y s
      | ComparatorComponent \<Rightarrow> ComparatorComponent_onScheduledTick n me c x y s
      | ObserverComponent \<Rightarrow> ObserverComponent_onScheduledTick n me c x y s
      | PistonComponent \<Rightarrow> PistonComponent_onScheduledTick n me c x y s
      | StickyPistonComponent \<Rightarrow> PistonComponent_onScheduledTick n me c x y s
      | _ \<Rightarrow> Some s)"

section \<open>The tick\<close>

text \<open>The body of the loop of \<open>processScheduledTicks\<close>.\<close>

definition dispatchTick :: "nat \<Rightarrow> sched \<Rightarrow> sim \<Rightarrow> sim option" where
  "dispatchTick n t s =
     (case getBlockEntity s (sx t) (sy t) of
        None \<Rightarrow> Some s
      | Some (i, e) \<Rightarrow>
          (case redstone e of
             None \<Rightarrow> Some s
           | Some c \<Rightarrow> onScheduledTick n i c (sx t) (sy t) s))"

fun processDue :: "nat \<Rightarrow> sched list \<Rightarrow> sim \<Rightarrow> sim option" where
  "processDue n [] s = Some s"
| "processDue n (t # ts) s = do { s1 \<leftarrow> dispatchTick n t s; processDue n ts s1 }"

definition dueTicks :: "sim \<Rightarrow> sched list" where
  "dueTicks s = filter (\<lambda>t. time t \<le> tickCount s) (nextTickList s)"

definition processScheduledTicks :: "nat \<Rightarrow> sim \<Rightarrow> sim option" where
  "processScheduledTicks n s =
     processDue n (dueTicks s)
       (s\<lparr>nextTickList := filter (\<lambda>t. time t > tickCount s) (nextTickList s)\<rparr>)"

definition tick :: "nat \<Rightarrow> sim \<Rightarrow> sim option" where
  "tick n s = processScheduledTicks n (s\<lparr>tickCount := tickCount s + 1\<rparr>)"

section \<open>The editor (input.js)\<close>

definition toggle :: "nat \<Rightarrow> int \<Rightarrow> component \<Rightarrow> int \<Rightarrow> int \<Rightarrow> sim \<Rightarrow> sim option" where
  "toggle n me c x y s =
     (let p = (if powerLevel c > 0 then 0 else 15)
      in notifyNeighbors n x y
           (updateBlockState x y (\<lambda>b. b\<lparr>bs_powered := (p > 0)\<rparr>)
              (setThis me (\<lambda>r. r\<lparr>powerLevel := p\<rparr>) s)))"

definition press :: "nat \<Rightarrow> int \<Rightarrow> component \<Rightarrow> int \<Rightarrow> int \<Rightarrow> sim \<Rightarrow> sim option" where
  "press n me c x y s =
     (if powerLevel c = 0
      then do { s1 \<leftarrow> notifyNeighbors n x y
                       (updateBlockState x y (\<lambda>b. b\<lparr>bs_powered := True\<rparr>)
                          (setThis me (\<lambda>r. r\<lparr>powerLevel := 15\<rparr>) s));
                Some (scheduleBlockUpdate x y 20 0 s1) }
      else Some s)"

text \<open>
  \<open>placeOrInteract\<close> with \<open>selected\<close> the editor's \<open>selectedComponent\<close>. A lever or button
  type string always comes with the component of that class; calling the method on
  another class would throw.
\<close>

definition placeOrInteract :: "nat \<Rightarrow> string \<Rightarrow> int \<Rightarrow> int \<Rightarrow> sim \<Rightarrow> sim option" where
  "placeOrInteract n selected x y s =
     (if x < 0 \<or> x \<ge> width s \<or> y < 0 \<or> y \<ge> height s then Some s
      else case getBlockEntity s x y of
        Some (i, e) \<Rightarrow>
          if selected = ''erase'' then notifyNeighbors n x y (removeEntity i s)
          else (case redstone e of
                  None \<Rightarrow> Some s
                | Some c \<Rightarrow>
                    if bs_type (blockState e) = ''minecraft:lever''
                    then (if cls c = LeverComponent then toggle n i c x y s else None)
                    else if bs_type (blockState e) = ''minecraft:button''
                    then (if cls c = ButtonComponent then press n i c x y s else None)
                    else Some s)
      | None \<Rightarrow>
          if selected = ''erase'' then Some s
          else map_option snd (createEntity n selected x y s))"

text \<open>The Delete item of the context menu, opened and clicked on the block at the cell.\<close>

definition deleteBlock :: "nat \<Rightarrow> int \<Rightarrow> int \<Rightarrow> sim \<Rightarrow> sim option" where
  "deleteBlock n x y s =
     (case getBlockEntity s x y of
        None \<Rightarrow> Some s
      | Some (i, e) \<Rightarrow> notifyNeighbors n x y (removeEntity i s))"

definition rotateComponent :: "nat \<Rightarrow> int \<Rightarrow> int \<Rightarrow> sim \<Rightarrow> sim option" where
  "rotateComponent n x y s =
     (case getBlockEntity s x y of
        None \<Rightarrow> Some s
      | Some (i, e) \<Rightarrow>
          if (bs_type (blockState e) = ''minecraft:piston''
              \<or> bs_type (blockState e) = ''minecraft:sticky_piston'')
             \<and> bs_extended (blockState e) then Some s
          else (let s1 = setBlockState i
                           (\<lambda>b. b\<lparr>bs_rotation := js_rem (bs_rotation b + 1) 4\<rparr>) s
                in case redstone e of
                     None \<Rightarrow> notifyNeighbors n x y s1
                   | Some c \<Rightarrow>
                       do { s2 \<leftarrow> onNeighborUpdate n i c x y x y s1;
                            notifyNeighbors n x y s2 }))"

section \<open>Editor sessions\<close>

text \<open>A list of operations run in sequence; it stops at the first exception.\<close>

fun run :: "(sim \<Rightarrow> sim option) list \<Rightarrow> sim \<Rightarrow> sim option" where
  "run [] s = Some s"
| "run (f # fs) s = Option.bind (f s) (run fs)"

text \<open>Observations of a state: the blocks with their cells, and the logic fields.\<close>

definition blocks :: "sim \<Rightarrow> (int \<times> (int \<times> int) \<times> string) list" where
  "blocks s = map (\<lambda>(i, e). (i, position e, bs_type (blockState e))) (entities s)"

definition levels :: "sim \<Rightarrow> (int \<times> int option) list" where
  "levels s = map (\<lambda>(i, e). (i, map_option powerLevel (redstone e))) (entities s)"

definition pistons :: "sim \<Rightarrow> (int \<times> bool \<times> int \<times> int) list" where
  "pistons s =
     concat (map (\<lambda>(i, e). case redstone e of
                     None \<Rightarrow> []
                   | Some c \<Rightarrow>
                       if cls c = PistonComponent \<or> cls c = StickyPistonComponent
                          \<or> cls c = PistonHeadComponent
                       then [(i, extended c, headId c, sourcePistonId c)] else [])
                 (entities s))"

definition canPushAt :: "int \<Rightarrow> int \<Rightarrow> int \<Rightarrow> sim \<Rightarrow> bool" where
  "canPushAt x y direction s = canPush s x y direction"

text \<open>
  A piston at (5, 20) facing north, twelve stones in the cells (5, 19) up to (5, 8) in
  front of it, the cell (5, 7) empty, and a redstone block behind it at (5, 21).
\<close>

definition pushTwelve :: "(sim \<Rightarrow> sim option) list" where
  "pushTwelve =
     map (placeOrInteract 20 ''minecraft:stone'' 5) [8, 9, 10, 11, 12, 13, 14, 15, 16, 17, 18, 19]
     @ [placeOrInteract 20 ''minecraft:redstone_block'' 5 21,
        placeOrInteract 20 ''minecraft:piston'' 5 20]"

text \<open>The same with eleven stones, in the cells (5, 19) up to (5, 9).\<close>

definition pushEleven :: "(sim \<Rightarrow> sim option) list" where
  "pushEleven =
     map (placeOrInteract 20 ''minecraft:stone'' 5) [9, 10, 11, 12, 13, 14, 15, 16, 17, 18, 19]
     @ [placeOrInteract 20 ''minecraft:redstone_block'' 5 21,
        placeOrInteract 20 ''minecraft:piston'' 5 20]"

section \<open>What a cascade of neighbor updates leaves alone\<close>

text \<open>The keys of a JavaScript Map are distinct.\<close>

definition distinct_ids :: "sim \<Rightarrow> bool" where
  "distinct_ids s \<longleftrightarrow> distinct (map fst (entities s))"

text \<open>
  A cascade of neighbor updates assigns the level of wires and the lock flag of
  repeaters, and the visual level of blocks; it appends to the queue. Everything else
  is as before.
\<close>

definition same_but_level :: "component \<Rightarrow> component \<Rightarrow> bool" where
  "same_but_level c c' \<longleftrightarrow>
     c'\<lparr>powerLevel := powerLevel c, locked := locked c\<rparr> = c
     \<and> (cls c \<noteq> RedstoneDustComponent \<longrightarrow> powerLevel c' = powerLevel c)"

definition cascade_entity :: "int \<times> entity \<Rightarrow> int \<times> entity \<Rightarrow> bool" where
  "cascade_entity p q \<longleftrightarrow>
     fst q = fst p \<and> position (snd q) = position (snd p)
     \<and> (blockState (snd q))\<lparr>bs_powerLevel := bs_powerLevel (blockState (snd p))\<rparr> = blockState (snd p)
     \<and> rel_option same_but_level (redstone (snd p)) (redstone (snd q))"

definition cascade :: "sim \<Rightarrow> sim \<Rightarrow> bool" where
  "cascade s s' \<longleftrightarrow>
     width s' = width s \<and> height s' = height s \<and> nextId s' = nextId s
     \<and> tickCount s' = tickCount s
     \<and> list_all2 cascade_entity (entities s) (entities s')
     \<and> prefix (nextTickList s) (nextTickList s')"

text \<open>The component object, the blockState and the position of the entity with a given id.\<close>

definition compOf :: "sim \<Rightarrow> int \<Rightarrow> component option" where
  "compOf s i = Option.bind (map_of (entities s) i) redstone"

definition stateOf :: "sim \<Rightarrow> int \<Rightarrow> blockState option" where
  "stateOf s i = map_option blockState (map_of (entities s) i)"

definition positionOf :: "sim \<Rightarrow> int \<Rightarrow> (int \<times> int) option" where
  "positionOf s i = map_option position (map_of (entities s) i)"

text \<open>
  A comparator at (1, 0) facing north in Compare mode, a redstone block behind it at
  (1, 1), nothing at its sides; the comparator's placement has queued its first tick.
\<close>

definition comparatorScene :: sim where
  "comparatorScene =
     \<lparr>width = 64, height = 48,
      entities = [(1, newEntity ''minecraft:redstone_block'' 1 1),
                  (2, newEntity ''minecraft:comparator'' 1 0)],
      nextId = 3, tickCount = 0,
      nextTickList = [\<lparr>sx = 1, sy = 0, time = 0, priority = 0\<rparr>]\<rparr>"

text \<open>
  The wire's new level in the words of the specification: each cardinal neighbor that
  is a wire contributes its level minus one, floored at 0; every other neighbor with a
  logic component contributes its output toward the wire; the level is the maximum, 0
  when nothing contributes.
\<close>

definition neighborContribution :: "sim \<Rightarrow> int \<Rightarrow> int \<Rightarrow> int \<Rightarrow> int option" where
  "neighborContribution s x y dir =
     (case getBlockEntity s (x + fst (toVector dir)) (y + snd (toVector dir)) of
        None \<Rightarrow> Some 0
      | Some (i, e) \<Rightarrow>
          (case redstone e of
             None \<Rightarrow> Some 0
           | Some r \<Rightarrow>
               if cls r = RedstoneDustComponent then Some (max 0 (powerLevel r - 1))
               else getPowerOutput s (x + fst (toVector dir)) (y + snd (toVector dir))
                      (opposite dir) r))"

definition wireLevel :: "sim \<Rightarrow> int \<Rightarrow> int \<Rightarrow> int option" where
  "wireLevel s x y =
     do { c0 \<leftarrow> neighborContribution s x y 0;
          c1 \<leftarrow> neighborContribution s x y 1;
          c2 \<leftarrow> neighborContribution s x y 2;
          c3 \<leftarrow> neighborContribution s x y 3;
          Some (Max {0, c0, c1, c2, c3}) }"

text \<open>
  A wire at (1, 0) between a redstone block at (0, 0) and a second wire at (2, 0), as
  the editor leaves them when they are placed in this order.
\<close>

definition wireScene :: sim where
  "wireScene =
     \<lparr>width = 64, height = 48,
      entities =
        [(1, newEntity ''minecraft:redstone_block'' 0 0),
         (2, (newEntity ''minecraft:redstone_dust'' 2 0)
               \<lparr>redstone := Some ((new_component RedstoneDustComponent)\<lparr>powerLevel := 14\<rparr>),
                blockState := (blockState (newEntity ''minecraft:redstone_dust'' 2 0))
                                \<lparr>bs_powerLevel := 14\<rparr>\<rparr>),
         (3, (newEntity ''minecraft:redstone_dust'' 1 0)
               \<lparr>redstone := Some ((new_component RedstoneDustComponent)\<lparr>powerLevel := 15\<rparr>),
                blockState := (blockState (newEntity ''minecraft:redstone_dust'' 1 0))
                                \<lparr>bs_powerLevel := 15\<rparr>\<rparr>)],
      nextId = 4, tickCount = 0, nextTickList = []\<rparr>"

text \<open>An obsidian block at (3, 4) placed on the empty grid.\<close>

definition obsidianScene :: sim where
  "obsidianScene =
     \<lparr>width = 64, height = 48, entities = [(1, newEntity ''minecraft:obsidian'' 3 4)],
      nextId = 2, tickCount = 0, nextTickList = []\<rparr>"

text \<open>More observations: the power entering a cell, and the output of the block at a cell.\<close>

definition powerInto :: "int \<Rightarrow> int \<Rightarrow> int \<Rightarrow> sim \<Rightarrow> int option" where
  "powerInto x y fromDirection s = getPower s x y fromDirection"

definition outputToward :: "int \<Rightarrow> int \<Rightarrow> int \<Rightarrow> sim \<Rightarrow> int option" where
  "outputToward x y toDirection s =
     (case getBlockEntity s x y of
        None \<Rightarrow> None
      | Some (i, e) \<Rightarrow>
          (case redstone e of None \<Rightarrow> None | Some c \<Rightarrow> getPowerOutput s x y toDirection c))"

definition rotations :: "sim \<Rightarrow> (int \<times> int) list" where
  "rotations s = map (\<lambda>(i, e). (i, bs_rotation (blockState e))) (entities s)"

text \<open>
  A torch with rotation 0 at (1, 1) under a redstone block at (1, 0), run until the
  torch's first scheduled reevaluation has fired.
\<close>

definition torchUnderBlock :: "(sim \<Rightarrow> sim option) list" where
  "torchUnderBlock =
     [placeOrInteract 20 ''minecraft:redstone_block'' 1 0,
      placeOrInteract 20 ''minecraft:redstone_torch'' 1 1,
      tick 20, tick 20]"

text \<open>The same torch above the redstone block, before its first reevaluation.\<close>

definition torchScene :: sim where
  "torchScene =
     \<lparr>width = 64, height = 48,
      entities = [(1, newEntity ''minecraft:redstone_block'' 1 2),
                  (2, newEntity ''minecraft:redstone_torch'' 1 1)],
      nextId = 3, tickCount = 0,
      nextTickList = [\<lparr>sx = 1, sy = 1, time = 2, priority = 0\<rparr>]\<rparr>"

text \<open>
  A torch placed at (1, 1), erased, and an observer placed in the same cell; then two
  ticks, which make the torch's queued reevaluation due.
\<close>

definition orphanSchedule :: "(sim \<Rightarrow> sim option) list" where
  "orphanSchedule =
     [placeOrInteract 20 ''minecraft:redstone_torch'' 1 1,
      placeOrInteract 20 ''erase'' 1 1,
      placeOrInteract 20 ''minecraft:observer'' 1 1]"

text \<open>A queue entry for the cell (1, 1) on a grid whose only block is a lever at (1, 1).\<close>

definition leverScene :: sim where
  "leverScene =
     \<lparr>width = 64, height = 48, entities = [(1, newEntity ''minecraft:lever'' 1 1)],
      nextId = 2, tickCount = 0, nextTickList = []\<rparr>"

definition repeaters :: "sim \<Rightarrow> (int \<times> bool \<times> bool \<times> int) list" where
  "repeaters s =
     concat (map (\<lambda>(i, e). case redstone e of
                     None \<Rightarrow> []
                   | Some c \<Rightarrow>
                       if cls c = RepeaterComponent then [(i, powered c, locked c, powerLevel c)]
                       else [])
                 (entities s))"

text \<open>
  A repeater at (1, 1) facing north with a torch at its side (2, 1) and a lever behind it
  at (1, 2). The lever is switched on and off again, which leaves one update of the
  repeater in the queue; one tick has passed.
\<close>

definition repeaterIdle :: "(sim \<Rightarrow> sim option) list" where
  "repeaterIdle =
     [placeOrInteract 20 ''minecraft:repeater'' 1 1,
      placeOrInteract 20 ''minecraft:redstone_torch'' 2 1,
      placeOrInteract 20 ''minecraft:lever'' 1 2,
      placeOrInteract 20 ''minecraft:lever'' 1 2,
      placeOrInteract 20 ''minecraft:lever'' 1 2,
      tick 20]"

text \<open>A repeater at (1, 1) facing north and a lever behind it at (1, 2), switched on.\<close>

definition repeaterScene :: sim where
  "repeaterScene =
     \<lparr>width = 64, height = 48,
      entities =
        [(1, newEntity ''minecraft:repeater'' 1 1),
         (2, (newEntity ''minecraft:lever'' 1 2)
               \<lparr>redstone := Some ((new_component LeverComponent)\<lparr>powerLevel := 15\<rparr>),
                blockState := (blockState (newEntity ''minecraft:lever'' 1 2))
                                \<lparr>bs_powered := True\<rparr>\<rparr>)],
      nextId = 3, tickCount = 0,
      nextTickList = [\<lparr>sx = 1, sy = 1, time = 2, priority = 0\<rparr>]\<rparr>"

section \<open>The queue during an operation\<close>

text \<open>The clock is as before and the queue has its old entries first, in their order.\<close>

definition queue_grows :: "sim \<Rightarrow> sim \<Rightarrow> bool" where
  "queue_grows s s' \<longleftrightarrow> tickCount s' = tickCount s \<and> prefix (nextTickList s) (nextTickList s')"

text \<open>
  Two comparators side by side at (1, 0) and (2, 0) with a redstone block behind the
  first; both have their first tick in the queue.
\<close>

definition twoComparators :: "(sim \<Rightarrow> sim option) list" where
  "twoComparators =
     [placeOrInteract 20 ''minecraft:redstone_block'' 1 1,
      placeOrInteract 20 ''minecraft:comparator'' 1 0,
      placeOrInteract 20 ''minecraft:comparator'' 2 0]"

section \<open>Cells\<close>

text \<open>Which entity stands where, and the invariant that no two stand in one cell.\<close>

definition cells :: "sim \<Rightarrow> (int \<times> (int \<times> int)) list" where
  "cells s = map (\<lambda>(i, e). (i, position e)) (entities s)"

definition one_per_cell :: "sim \<Rightarrow> bool" where
  "one_per_cell s \<longleftrightarrow> distinct (map snd (cells s))"

text \<open>\<open>createEntity\<close> as an operation of a session: the new id is dropped.\<close>

definition create :: "nat \<Rightarrow> string \<Rightarrow> int \<Rightarrow> int \<Rightarrow> sim \<Rightarrow> sim option" where
  "create n type x y s = map_option snd (createEntity n type x y s)"

text \<open>
  An editor session: a sticky piston at (5, 5) is extended by a redstone block behind
  it; its head at (5, 4) is erased and a stone placed in the head's cell, another stone
  in the cell (5, 3) beyond; the redstone block is erased and the piston retracts.
\<close>

definition stickyPull :: "(sim \<Rightarrow> sim option) list" where
  "stickyPull =
     [placeOrInteract 20 ''minecraft:redstone_block'' 5 6,
      placeOrInteract 20 ''minecraft:sticky_piston'' 5 5,
      tick 20, tick 20,
      placeOrInteract 20 ''erase'' 5 4,
      placeOrInteract 20 ''minecraft:stone'' 5 4,
      placeOrInteract 20 ''minecraft:stone'' 5 3,
      placeOrInteract 20 ''erase'' 5 6,
      tick 20, tick 20]"

section \<open>What piston motion leaves alone\<close>

text \<open>Ids are handed out in increasing order: every id in the store is below \<open>nextId\<close>.\<close>

definition ids_below :: "sim \<Rightarrow> bool" where
  "ids_below s \<longleftrightarrow> (\<forall>i \<in> set (map fst (entities s)). i < nextId s)"

text \<open>
  Pushing and pulling move blocks and run cascades: the entities are the same, and so
  are their components but for wire levels and lock flags; \<open>nextId\<close> is as before.
\<close>

definition motion_entity :: "int \<times> entity \<Rightarrow> int \<times> entity \<Rightarrow> bool" where
  "motion_entity p q \<longleftrightarrow>
     fst q = fst p \<and> rel_option same_but_level (redstone (snd p)) (redstone (snd q))"

definition motion :: "sim \<Rightarrow> sim \<Rightarrow> bool" where
  "motion s s' \<longleftrightarrow> nextId s' = nextId s \<and> list_all2 motion_entity (entities s) (entities s')"

text \<open>
  A piston at (5, 5) facing north, extended by a redstone block behind it; then the
  piston is erased, or else its head.
\<close>

definition extendedPiston :: "(sim \<Rightarrow> sim option) list" where
  "extendedPiston =
     [placeOrInteract 20 ''minecraft:redstone_block'' 5 6,
      placeOrInteract 20 ''minecraft:piston'' 5 5,
      tick 20, tick 20]"

text \<open>
  The session \<open>orphanSchedule\<close> after one tick: the only block is the observer at (1, 1),
  and the entry the erased torch queued for that cell is due at the next tick.
\<close>

definition orphanScene :: sim where
  "orphanScene =
     \<lparr>width = 64, height = 48, entities = [(2, newEntity ''minecraft:observer'' 1 1)],
      nextId = 3, tickCount = 1,
      nextTickList = [\<lparr>sx = 1, sy = 1, time = 2, priority = 0\<rparr>]\<rparr>"

definition torchThenComparator :: sim where
  "torchThenComparator =
     \<lparr>width = 64, height = 48,
      entities = [(1, newEntity ''minecraft:redstone_torch'' 1 1),
                  (2, newEntity ''minecraft:comparator'' 1 0)],
      nextId = 3, tickCount = 1,
      nextTickList = [\<lparr>sx = 1, sy = 1, time = 2, priority = 0\<rparr>,
                      \<lparr>sx = 1, sy = 0, time = 1, priority = 0\<rparr>]\<rparr>"

definition outputs :: "sim \<Rightarrow> (int \<times> int option) list" where
  "outputs s = map (\<lambda>(i, e). (i, map_option outputPower (redstone e))) (entities s)"

text \<open>
  Two wires at (1, 0) and (2, 0), placed before the redstone block at (0, 0) beside the
  first: placing the block notifies nobody, so both wires are still at level 0.
\<close>

definition wiresUnlit :: sim where
  "wiresUnlit =
     \<lparr>width = 64, height = 48,
      entities = [(1, newEntity ''minecraft:redstone_dust'' 1 0),
                  (2, newEntity ''minecraft:redstone_dust'' 2 0),
                  (3, newEntity ''minecraft:redstone_block'' 0 0)],
      nextId = 4, tickCount = 0, nextTickList = []\<rparr>"

text \<open>
  A torch with rotation 0 at (1, 1), lit by its first reevaluation, and a redstone block
  placed afterwards at (1, 2), the cell south of it.
\<close>

definition torchLit :: sim where
  "torchLit =
     \<lparr>width = 64, height = 48,
      entities =
        [(1, (newEntity ''minecraft:redstone_torch'' 1 1)
               \<lparr>redstone := Some ((new_component RedstoneTorchComponent)\<lparr>powerLevel := 15\<rparr>)\<rparr>),
         (2, newEntity ''minecraft:redstone_block'' 1 2)],
      nextId = 3, tickCount = 2, nextTickList = []\<rparr>"

section \<open>The wires of a cascade\<close>

text \<open>The level of the wire found at a cell, when the block found there is a wire.\<close>

definition wireAt :: "sim \<Rightarrow> int \<Rightarrow> int \<Rightarrow> int option" where
  "wireAt s x y =
     (case getBlockEntity s x y of
        None \<Rightarrow> None
      | Some (i, e) \<Rightarrow>
          (case redstone e of
             None \<Rightarrow> None
           | Some c \<Rightarrow> if cls c = RedstoneDustComponent then Some (powerLevel c) else None))"

text \<open>
  A wire is unsettled when its level is not the one its neighbors ask for, which a
  neighbor update of the wire would assign; its rank is the larger of the two levels.
  The backlog of a state is the multiset of the ranks of its unsettled wires.
\<close>

definition unsettled :: "sim \<Rightarrow> int \<times> int \<Rightarrow> nat option" where
  "unsettled s p =
     (case wireAt s (fst p) (snd p) of
        None \<Rightarrow> None
      | Some l \<Rightarrow>
          (case wireLevel s (fst p) (snd p) of
             None \<Rightarrow> None
           | Some m \<Rightarrow> if l \<noteq> m then Some (nat (max l m)) else None))"

definition occupied :: "sim \<Rightarrow> (int \<times> int) list" where
  "occupied s = remdups (map snd (cells s))"

definition backlog :: "sim \<Rightarrow> nat multiset" where
  "backlog s = mset (List.map_filter (unsettled s) (occupied s))"

section \<open>Verified properties\<close>

subsection \<open>The push limit\<close>

text \<open>
  Claim C1. A push chain of exactly twelve movable blocks followed by an empty cell is
  within the push limit of twelve, so the extension should succeed. The source counts a
  block and then refuses as soon as the count has reached twelve: with twelve stones in
  front of a powered piston \<open>canPush\<close> is false, and two ticks later no block has moved
  and the piston is still retracted.
\<close>

theorem push_twelve_fails:
  "map_option (canPushAt 5 20 0) (run pushTwelve (RedstoneSimulator 64 48)) = Some False
   \<and> map_option blocks (run (pushTwelve @ [tick 20, tick 20]) (RedstoneSimulator 64 48))
     = map_option blocks (run pushTwelve (RedstoneSimulator 64 48))
   \<and> map_option pistons (run (pushTwelve @ [tick 20, tick 20]) (RedstoneSimulator 64 48))
     = Some [(14, False, -1, 0)]"
  by code_simp

text \<open>With eleven stones the same piston extends: the stones move up one cell.\<close>

lemma push_eleven_succeeds:
  "map_option (canPushAt 5 20 0) (run pushEleven (RedstoneSimulator 64 48)) = Some True
   \<and> map_option blocks (run (pushEleven @ [tick 20, tick 20]) (RedstoneSimulator 64 48))
     = Some [(1, (5, 8), ''minecraft:stone''), (2, (5, 9), ''minecraft:stone''),
             (3, (5, 10), ''minecraft:stone''), (4, (5, 11), ''minecraft:stone''),
             (5, (5, 12), ''minecraft:stone''), (6, (5, 13), ''minecraft:stone''),
             (7, (5, 14), ''minecraft:stone''), (8, (5, 15), ''minecraft:stone''),
             (9, (5, 16), ''minecraft:stone''), (10, (5, 17), ''minecraft:stone''),
             (11, (5, 18), ''minecraft:stone''), (12, (5, 21), ''minecraft:redstone_block''),
             (13, (5, 20), ''minecraft:piston''), (14, (5, 19), ''minecraft:piston_head'')]
   \<and> map_option pistons (run (pushEleven @ [tick 20, tick 20]) (RedstoneSimulator 64 48))
     = Some [(13, True, 14, 0), (14, False, 0, 13)]"
  by code_simp

subsection \<open>Reading the store\<close>

lemma getBlockEntity_SomeD:
  assumes "getBlockEntity s x y = Some (i, e)"
  shows "(i, e) \<in> set (entities s)" and "position e = (x, y)"
  using assms unfolding getBlockEntity_def
  by (auto simp: find_Some_iff in_set_conv_nth)

lemma rotationAt_Some:
  "getBlockEntity s x y = Some (i, e) \<Longrightarrow> rotationAt s x y = Some (bs_rotation (blockState e))"
  by (simp add: rotationAt_def)

lemma getPowerOutput_total:
  assumes "getBlockEntity s x y = Some (i, e)"
  shows "\<exists>p. getPowerOutput s x y d c = Some p"
  using rotationAt_Some[OF assms]
  by (cases "cls c") (simp_all add: getPowerOutput_def)

lemma getPower_total: "\<exists>p. getPower s x y d = Some p"
proof -
  obtain vx vy where v: "toVector d = (vx, vy)" by (cases "toVector d")
  show ?thesis
  proof (cases "getBlockEntity s (x + vx) (y + vy)")
    case None
    then show ?thesis by (simp add: getPower_def v)
  next
    case (Some p)
    obtain i e where p: "p = (i, e)" by (cases p)
    show ?thesis
    proof (cases "redstone e")
      case None
      then show ?thesis using Some p by (simp add: getPower_def v)
    next
      case (Some c)
      with getPowerOutput_total[of s "x + vx" "y + vy" i e "opposite d" c] \<open>getBlockEntity s (x + vx) (y + vy) = Some p\<close> p
      show ?thesis by (simp add: getPower_def v)
    qed
  qed
qed

lemma getMaxNeighborPower_total: "\<exists>p. getMaxNeighborPower s x y = Some p"
proof -
  obtain p0 p1 p2 p3 where "getPower s x y 0 = Some p0" "getPower s x y 1 = Some p1"
    "getPower s x y 2 = Some p2" "getPower s x y 3 = Some p3"
    using getPower_total by meson
  then show ?thesis by (simp add: getMaxNeighborPower_def)
qed

lemma getRepeaterInput_total: "\<exists>p. getRepeaterInput s x y d = Some p"
proof -
  obtain vx vy where v: "toVector d = (vx, vy)" by (cases "toVector d")
  show ?thesis
  proof (cases "getBlockEntity s (x + vx) (y + vy)")
    case None
    then show ?thesis by (simp add: getRepeaterInput_def v)
  next
    case (Some p)
    obtain i e where p: "p = (i, e)" by (cases p)
    show ?thesis
    proof (cases "redstone e")
      case None
      then show ?thesis using Some p by (simp add: getRepeaterInput_def v)
    next
      case (Some c)
      with getPowerOutput_total[of s "x + vx" "y + vy" i e "opposite d" c] \<open>getBlockEntity s (x + vx) (y + vy) = Some p\<close> p
      show ?thesis by (auto simp add: getRepeaterInput_def v)
    qed
  qed
qed

lemma dustInput_total: "\<exists>p. dustInput s x y d m = Some p"
proof -
  obtain vx vy where v: "toVector d = (vx, vy)" by (cases "toVector d")
  show ?thesis
  proof (cases "getBlockEntity s (x + vx) (y + vy)")
    case None
    then show ?thesis by (simp add: dustInput_def v)
  next
    case (Some p)
    obtain i e where p: "p = (i, e)" by (cases p)
    show ?thesis
    proof (cases "redstone e")
      case None
      then show ?thesis using Some p by (simp add: dustInput_def v)
    next
      case (Some c)
      with getPowerOutput_total[of s "x + vx" "y + vy" i e "opposite d" c] \<open>getBlockEntity s (x + vx) (y + vy) = Some p\<close> p
      show ?thesis by (auto simp add: dustInput_def v)
    qed
  qed
qed

lemma dustMaxPower_total: "\<exists>p. dustMaxPower s x y = Some p"
proof -
  obtain m0 where m0: "dustInput s x y 0 0 = Some m0" using dustInput_total by blast
  obtain m1 where m1: "dustInput s x y 1 m0 = Some m1" using dustInput_total by blast
  obtain m2 where m2: "dustInput s x y 2 m1 = Some m2" using dustInput_total by blast
  obtain m3 where m3: "dustInput s x y 3 m2 = Some m3" using dustInput_total by blast
  show ?thesis by (simp add: dustMaxPower_def m0 m1 m2 m3)
qed

subsection \<open>The cascade relation\<close>

lemma same_but_level_refl: "same_but_level c c"
  by (simp add: same_but_level_def)

lemma same_but_level_trans:
  "same_but_level a b \<Longrightarrow> same_but_level b c \<Longrightarrow> same_but_level a c"
  unfolding same_but_level_def
  by (cases a, cases b, cases c) auto

lemma cascade_entity_refl: "cascade_entity p p"
  by (simp add: cascade_entity_def same_but_level_refl option.rel_refl)

lemma cascade_entity_trans:
  assumes "cascade_entity p q" "cascade_entity q r"
  shows "cascade_entity p r"
proof -
  have "rel_option same_but_level (redstone (snd p)) (redstone (snd r))"
    using assms unfolding cascade_entity_def
    by (cases "redstone (snd p)"; cases "redstone (snd q)"; cases "redstone (snd r)")
       (auto intro: same_but_level_trans)
  moreover have "(blockState (snd r))\<lparr>bs_powerLevel := bs_powerLevel (blockState (snd p))\<rparr> = blockState (snd p)"
    using assms unfolding cascade_entity_def
    by (cases "blockState (snd p)", cases "blockState (snd q)", cases "blockState (snd r)") auto
  ultimately show ?thesis using assms by (simp add: cascade_entity_def)
qed

lemma cascade_refl: "cascade s s"
  by (simp add: cascade_def list_all2_refl cascade_entity_refl)

lemma cascade_trans:
  assumes "cascade a b" "cascade b c"
  shows "cascade a c"
proof -
  have "list_all2 cascade_entity (entities a) (entities c)"
    using assms unfolding cascade_def
    by (auto intro: list_all2_trans[where ?P1.0 = cascade_entity and ?P2.0 = cascade_entity] cascade_entity_trans)
  moreover have "prefix (nextTickList a) (nextTickList c)"
    using assms unfolding cascade_def by (auto intro: prefix_order.order_trans)
  ultimately show ?thesis using assms by (simp add: cascade_def)
qed

lemma cascade_ids: "cascade s s' \<Longrightarrow> map fst (entities s') = map fst (entities s)"
  unfolding cascade_def
proof -
  assume "width s' = width s \<and> height s' = height s \<and> nextId s' = nextId s
     \<and> tickCount s' = tickCount s
     \<and> list_all2 cascade_entity (entities s) (entities s')
     \<and> prefix (nextTickList s) (nextTickList s')"
  then have "list_all2 cascade_entity (entities s) (entities s')" by simp
  then show ?thesis
    by (induction rule: list_all2_induct) (auto simp: cascade_entity_def)
qed

lemma cascade_distinct_ids: "cascade s s' \<Longrightarrow> distinct_ids s \<Longrightarrow> distinct_ids s'"
  by (simp add: distinct_ids_def cascade_ids)

lemma list_all2_find:
  assumes "list_all2 R xs ys" "\<And>a b. R a b \<Longrightarrow> P a = Q b"
  shows "rel_option R (find P xs) (find Q ys)"
  using assms by (induction rule: list_all2_induct) auto

lemma cascade_getBlockEntity:
  assumes "cascade s s'"
  shows "rel_option cascade_entity (getBlockEntity s x y) (getBlockEntity s' x y)"
  unfolding getBlockEntity_def
  apply (rule list_all2_find[where R = cascade_entity])
  using assms apply (simp add: cascade_def)
  apply (auto simp: cascade_entity_def split: prod.splits)
  done

lemma list_all2_map_of:
  assumes "list_all2 R xs ys" "\<And>a b. R a b \<Longrightarrow> fst b = fst a"
  shows "rel_option (\<lambda>e e'. R (k, e) (k, e')) (map_of xs k) (map_of ys k)"
  using assms
proof (induction rule: list_all2_induct)
  case Nil
  then show ?case by simp
next
  case (Cons x xs y ys)
  then show ?case by (cases x; cases y) (auto simp: option.rel_refl)
qed

lemma cascade_map_of:
  assumes "cascade s s'"
  shows "rel_option (\<lambda>e e'. cascade_entity (k, e) (k, e')) (map_of (entities s) k) (map_of (entities s') k)"
  apply (rule list_all2_map_of)
  using assms apply (simp add: cascade_def)
  apply (simp add: cascade_entity_def)
  done

subsection \<open>Every neighbor-update cascade is within the cascade relation\<close>

lemma cascade_scheduleBlockUpdate: "cascade s (scheduleBlockUpdate x y d p s)"
  by (simp add: cascade_def scheduleBlockUpdate_def list_all2_refl cascade_entity_refl)

lemma list_all2_map_entry:
  assumes "\<And>v. (k, v) \<in> set xs \<Longrightarrow> R (k, v) (k, f v)" "\<And>p. R p p"
  shows "list_all2 R xs (AList.map_entry k f xs)"
  using assms(1)
proof (induction xs)
  case Nil
  then show ?case by simp
next
  case (Cons p ps)
  obtain a b where p: "p = (a, b)" by (cases p)
  show ?case
  proof (cases "a = k")
    case True
    then show ?thesis using Cons.prems p
      by (simp add: list_all2_refl assms(2))
  next
    case False
    then show ?thesis using Cons p by (simp add: assms(2))
  qed
qed

lemma cascade_setThis:
  assumes "\<And>e c. (me, e) \<in> set (entities s) \<Longrightarrow> redstone e = Some c \<Longrightarrow> same_but_level c (f c)"
  shows "cascade s (setThis me f s)"
proof -
  have "list_all2 cascade_entity (entities s)
          (AList.map_entry me (\<lambda>e. e\<lparr>redstone := map_option f (redstone e)\<rparr>) (entities s))"
  proof (rule list_all2_map_entry)
    fix v assume v: "(me, v) \<in> set (entities s)"
    show "cascade_entity (me, v) (me, v\<lparr>redstone := map_option f (redstone v)\<rparr>)"
      using assms[OF v] by (cases "redstone v") (simp_all add: cascade_entity_def)
  qed (rule cascade_entity_refl)
  then show ?thesis by (simp add: cascade_def setThis_def)
qed

lemma cascade_setBlockState_level:
  "cascade s (setBlockState i (\<lambda>b. b\<lparr>bs_powerLevel := m\<rparr>) s)"
proof -
  have "list_all2 cascade_entity (entities s)
          (AList.map_entry i (\<lambda>e. e\<lparr>blockState := (blockState e)\<lparr>bs_powerLevel := m\<rparr>\<rparr>) (entities s))"
    by (rule list_all2_map_entry)
       (simp_all add: cascade_entity_def cascade_entity_refl option.rel_refl same_but_level_refl)
  then show ?thesis by (simp add: cascade_def setBlockState_def)
qed

lemma cascade_updateBlockState_level:
  "cascade s (updateBlockState x y (\<lambda>b. b\<lparr>bs_powerLevel := m\<rparr>) s)"
  by (auto simp: updateBlockState_def cascade_refl cascade_setBlockState_level split: option.splits)

lemma cascade_dustAssign:
  assumes "distinct_ids s" "(me, e) \<in> set (entities s)" "redstone e = Some c"
    "cls c = RedstoneDustComponent"
  shows "cascade s (dustAssign me x y m s)"
proof -
  have "cascade s (setThis me (\<lambda>r. r\<lparr>powerLevel := m\<rparr>) s)"
  proof (rule cascade_setThis)
    fix e' c' assume "(me, e') \<in> set (entities s)" "redstone e' = Some c'"
    with assms have "c' = c"
      using eq_key_imp_eq_value[of "entities s" me e' e] by (simp add: distinct_ids_def)
    then show "same_but_level c' (c'\<lparr>powerLevel := m\<rparr>)"
      using assms(4) by (simp add: same_but_level_def)
  qed
  then show ?thesis
    unfolding dustAssign_def
    by (rule cascade_trans) (rule cascade_updateBlockState_level)
qed

lemma cascade_Repeater_onNeighborUpdate:
  assumes "RepeaterComponent_onNeighborUpdate me c x y s = Some s'"
  shows "cascade s s'"
proof -
  have lk: "cascade s (setThis me (\<lambda>r. r\<lparr>locked := b\<rparr>) s)" for b
    by (rule cascade_setThis) (simp add: same_but_level_def)
  have sch: "cascade s (scheduleBlockUpdate x y d 0 (setThis me (\<lambda>r. r\<lparr>locked := b\<rparr>) s))" for b d
    by (rule cascade_trans[OF lk cascade_scheduleBlockUpdate])
  show ?thesis
    using assms unfolding RepeaterComponent_onNeighborUpdate_def
    by (auto simp: Let_def lk sch split: bind_splits if_splits)
qed

lemma cascade_Observer_onNeighborUpdate:
  "ObserverComponent_onNeighborUpdate x y fx fy s = Some s' \<Longrightarrow> cascade s s'"
  unfolding ObserverComponent_onNeighborUpdate_def
  by (auto simp: Let_def cascade_refl cascade_scheduleBlockUpdate split: bind_splits if_splits prod.splits)

lemma cascade_Piston_onNeighborUpdate:
  "PistonComponent_onNeighborUpdate c x y s = Some s' \<Longrightarrow> cascade s s'"
  unfolding PistonComponent_onNeighborUpdate_def
  by (auto simp: Let_def cascade_refl cascade_scheduleBlockUpdate split: bind_splits if_splits)

lemma cascade_onNeighborUpdate_body:
  assumes notify: "\<And>x y s s'. distinct_ids s \<Longrightarrow> notify x y s = Some s' \<Longrightarrow> cascade s s'"
    and s: "distinct_ids s" "(me, e) \<in> set (entities s)" "redstone e = Some c"
    and r: "onNeighborUpdate_body notify me c x y fx fy s = Some s'"
  shows "cascade s s'"
proof (cases "cls c = RedstoneDustComponent")
  case True
  from r True obtain m where m: "dustMaxPower s x y = Some m"
    and r': "(if powerLevel c \<noteq> m then notify x y (dustAssign me x y m s) else Some s) = Some s'"
    by (auto simp: onNeighborUpdate_body_def RedstoneDustComponent_onNeighborUpdate_def
             split: bind_splits)
  show ?thesis
  proof (cases "powerLevel c \<noteq> m")
    case False
    with r' show ?thesis by (simp add: cascade_refl)
  next
    case ch: True
    have a: "cascade s (dustAssign me x y m s)"
      by (rule cascade_dustAssign[OF s True])
    have "cascade (dustAssign me x y m s) s'"
      using notify[OF cascade_distinct_ids[OF a s(1)]] r' ch by simp
    with a show ?thesis by (rule cascade_trans)
  qed
next
  case False
  with r show ?thesis
    by (cases "cls c")
       (auto simp: onNeighborUpdate_body_def cascade_refl cascade_scheduleBlockUpdate
             dest: cascade_Repeater_onNeighborUpdate cascade_Observer_onNeighborUpdate
                   cascade_Piston_onNeighborUpdate)
qed

lemma cascade_notifyDir_body:
  assumes notify: "\<And>x y s s'. distinct_ids s \<Longrightarrow> notify x y s = Some s' \<Longrightarrow> cascade s s'"
    and s: "distinct_ids s"
    and r: "notifyDir_body notify x y dir s = Some s'"
  shows "cascade s s'"
proof -
  obtain vx vy where v: "toVector dir = (vx, vy)" by (cases "toVector dir")
  show ?thesis
  proof (cases "getBlockEntity s (x + vx) (y + vy)")
    case None
    with r v show ?thesis by (simp add: notifyDir_body_def cascade_refl)
  next
    case (Some p)
    obtain i e where p: "p = (i, e)" by (cases p)
    show ?thesis
    proof (cases "redstone e")
      case None
      with r v Some p show ?thesis by (simp add: notifyDir_body_def cascade_refl)
    next
      case (Some c)
      have b: "onNeighborUpdate_body notify i c (x + vx) (y + vy) x y s = Some s'"
        using r v \<open>getBlockEntity s (x + vx) (y + vy) = Some p\<close> p Some
        by (simp add: notifyDir_body_def)
      have m: "(i, e) \<in> set (entities s)"
        using getBlockEntity_SomeD(1) \<open>getBlockEntity s (x + vx) (y + vy) = Some p\<close> p by blast
      show ?thesis
      proof (rule cascade_onNeighborUpdate_body[where notify = notify])
        show "\<And>x y s s'. distinct_ids s \<Longrightarrow> notify x y s = Some s' \<Longrightarrow> cascade s s'"
          by (rule notify)
      qed (rule s m Some b)+
    qed
  qed
qed

lemma cascade_notifyNeighbors:
  "distinct_ids s \<Longrightarrow> notifyNeighbors n x y s = Some s' \<Longrightarrow> cascade s s'"
proof (induction n arbitrary: x y s s')
  case 0
  then show ?case by simp
next
  case (Suc n)
  have step: "\<And>x y s s'. distinct_ids s \<Longrightarrow> notifyNeighbors n x y s = Some s' \<Longrightarrow> cascade s s'"
    using Suc.IH by blast
  from Suc.prems(2) obtain s0 s1 s2 where
    d0: "notifyDir_body (notifyNeighbors n) x y 0 s = Some s0" and
    d1: "notifyDir_body (notifyNeighbors n) x y 1 s0 = Some s1" and
    d2: "notifyDir_body (notifyNeighbors n) x y 2 s1 = Some s2" and
    d3: "notifyDir_body (notifyNeighbors n) x y 3 s2 = Some s'"
    by (auto split: bind_splits)
  have c0: "cascade s s0" by (rule cascade_notifyDir_body[OF step Suc.prems(1) d0])
  have c1: "cascade s0 s1"
    by (rule cascade_notifyDir_body[OF step cascade_distinct_ids[OF c0 Suc.prems(1)] d1])
  have c01: "cascade s s1" by (rule cascade_trans[OF c0 c1])
  have c2: "cascade s1 s2"
    by (rule cascade_notifyDir_body[OF step cascade_distinct_ids[OF c01 Suc.prems(1)] d2])
  have c02: "cascade s s2" by (rule cascade_trans[OF c01 c2])
  have c3: "cascade s2 s'"
    by (rule cascade_notifyDir_body[OF step cascade_distinct_ids[OF c02 Suc.prems(1)] d3])
  show ?case by (rule cascade_trans[OF c02 c3])
qed

lemma cascade_onNeighborUpdate:
  assumes "distinct_ids s" "(me, e) \<in> set (entities s)" "redstone e = Some c"
    "onNeighborUpdate n me c x y fx fy s = Some s'"
  shows "cascade s s'"
proof (rule cascade_onNeighborUpdate_body[where notify = "notifyNeighbors n"])
  show "\<And>x y s s'. distinct_ids s \<Longrightarrow> notifyNeighbors n x y s = Some s' \<Longrightarrow> cascade s s'"
    by (rule cascade_notifyNeighbors)
  show "onNeighborUpdate_body (notifyNeighbors n) me c x y fx fy s = Some s'"
    using assms(4) by (simp add: onNeighborUpdate_def)
qed (rule assms)+

subsection \<open>Entities by id\<close>

lemma map_fst_map_entry: "map fst (AList.map_entry k f xs) = map fst xs"
  by (induction xs) auto

lemma distinct_ids_setThis [simp]: "distinct_ids (setThis me f s) = distinct_ids s"
  by (simp add: distinct_ids_def setThis_def map_fst_map_entry)

lemma distinct_ids_setBlockState [simp]: "distinct_ids (setBlockState i f s) = distinct_ids s"
  by (simp add: distinct_ids_def setBlockState_def map_fst_map_entry)

lemma distinct_ids_setPosition [simp]: "distinct_ids (setPosition i p s) = distinct_ids s"
  by (simp add: distinct_ids_def setPosition_def map_fst_map_entry)

lemma distinct_ids_updateBlockState [simp]: "distinct_ids (updateBlockState x y f s) = distinct_ids s"
  by (simp add: updateBlockState_def split: option.splits)

lemma distinct_ids_scheduleBlockUpdate [simp]:
  "distinct_ids (scheduleBlockUpdate x y d p s) = distinct_ids s"
  by (simp add: distinct_ids_def scheduleBlockUpdate_def)

lemma distinct_ids_removeEntity: "distinct_ids s \<Longrightarrow> distinct_ids (removeEntity i s)"
  by (simp add: distinct_ids_def removeEntity_def distinct_delete)

lemma map_of_entity:
  "distinct_ids s \<Longrightarrow> getBlockEntity s x y = Some (i, e) \<Longrightarrow> map_of (entities s) i = Some e"
  using getBlockEntity_SomeD(1)[of s x y i e] by (simp add: distinct_ids_def)

lemma compOf_entity:
  "distinct_ids s \<Longrightarrow> getBlockEntity s x y = Some (i, e) \<Longrightarrow> compOf s i = redstone e"
  by (simp add: compOf_def map_of_entity)

lemma stateOf_entity:
  "distinct_ids s \<Longrightarrow> getBlockEntity s x y = Some (i, e) \<Longrightarrow> stateOf s i = Some (blockState e)"
  by (simp add: stateOf_def map_of_entity)

lemma compOf_setThis:
  "compOf (setThis me f s) k = (if k = me then map_option f (compOf s k) else compOf s k)"
  by (cases "map_of (entities s) me")
     (auto simp: compOf_def setThis_def map_of_map_entry)

lemma compOf_setBlockState [simp]: "compOf (setBlockState i f s) k = compOf s k"
  by (cases "map_of (entities s) i")
     (auto simp: compOf_def setBlockState_def map_of_map_entry)

lemma compOf_updateBlockState [simp]: "compOf (updateBlockState x y f s) k = compOf s k"
  by (simp add: updateBlockState_def split: option.splits)

lemma compOf_setPosition [simp]: "compOf (setPosition i p s) k = compOf s k"
  by (cases "map_of (entities s) i")
     (auto simp: compOf_def setPosition_def map_of_map_entry)

lemma compOf_scheduleBlockUpdate [simp]: "compOf (scheduleBlockUpdate x y d p s) k = compOf s k"
  by (simp add: compOf_def scheduleBlockUpdate_def)

lemma stateOf_setThis [simp]: "stateOf (setThis me f s) k = stateOf s k"
  by (cases "map_of (entities s) me")
     (auto simp: stateOf_def setThis_def map_of_map_entry)

lemma stateOf_setBlockState:
  "stateOf (setBlockState i f s) k = (if k = i then map_option f (stateOf s k) else stateOf s k)"
  by (cases "map_of (entities s) i")
     (auto simp: stateOf_def setBlockState_def map_of_map_entry)

lemma positionOf_setThis [simp]: "positionOf (setThis me f s) k = positionOf s k"
  by (cases "map_of (entities s) me")
     (auto simp: positionOf_def setThis_def map_of_map_entry)

lemma positionOf_setBlockState [simp]: "positionOf (setBlockState i f s) k = positionOf s k"
  by (cases "map_of (entities s) i")
     (auto simp: positionOf_def setBlockState_def map_of_map_entry)

lemma cascade_compOf:
  assumes "cascade s s'"
  shows "rel_option same_but_level (compOf s k) (compOf s' k)"
  using cascade_map_of[OF assms, of k] unfolding compOf_def
  by (cases "map_of (entities s) k"; cases "map_of (entities s') k")
     (auto simp: cascade_entity_def)

lemma cascade_stateOf:
  assumes "cascade s s'"
  shows "rel_option (\<lambda>b b'. b'\<lparr>bs_powerLevel := bs_powerLevel b\<rparr> = b) (stateOf s k) (stateOf s' k)"
  using cascade_map_of[OF assms, of k] unfolding stateOf_def
  by (cases "map_of (entities s) k"; cases "map_of (entities s') k")
     (auto simp: cascade_entity_def)

lemma cascade_positionOf:
  assumes "cascade s s'"
  shows "positionOf s' k = positionOf s k"
  using cascade_map_of[OF assms, of k] unfolding positionOf_def
  by (cases "map_of (entities s) k"; cases "map_of (entities s') k")
     (auto simp: cascade_entity_def)

lemma same_but_levelD:
  assumes "same_but_level c c'"
  shows "cls c' = cls c" "delay c' = delay c" "powered c' = powered c" "mode c' = mode c"
    "outputPower c' = outputPower c" "extended c' = extended c" "isSticky c' = isSticky c"
    "headId c' = headId c" "sourcePistonId c' = sourcePistonId c"
    "cls c \<noteq> RedstoneDustComponent \<Longrightarrow> powerLevel c' = powerLevel c"
  using assms unfolding same_but_level_def
  by (cases c; cases c'; simp)+

lemma cascade_compOf_Some:
  assumes "cascade s s'" "compOf s k = Some c"
  obtains c' where "compOf s' k = Some c'" "same_but_level c c'"
  using cascade_compOf[OF assms(1), of k] assms(2)
  by (cases "compOf s' k") auto

subsection \<open>The comparator\<close>

lemma comparatorScene_reachable:
  "run [placeOrInteract 20 ''minecraft:redstone_block'' 1 1,
        placeOrInteract 20 ''minecraft:comparator'' 1 0] (RedstoneSimulator 64 48)
   = Some comparatorScene"
  by code_simp

subsection \<open>The wire\<close>

lemma wireScene_reachable:
  "run [placeOrInteract 20 ''minecraft:redstone_block'' 0 0,
        placeOrInteract 20 ''minecraft:redstone_dust'' 2 0,
        placeOrInteract 20 ''minecraft:redstone_dust'' 1 0] (RedstoneSimulator 64 48)
   = Some wireScene"
  by code_simp

lemma dustMaxPower_wireLevel: "dustMaxPower s x y = wireLevel s x y"
proof -
  have step: "\<exists>k. neighborContribution s x y dir = Some k
                \<and> (\<forall>m. 0 \<le> m \<longrightarrow> dustInput s x y dir m = Some (max m k))" for dir
  proof -
    obtain vx vy where v: "toVector dir = (vx, vy)" by (cases "toVector dir")
    show ?thesis
    proof (cases "getBlockEntity s (x + vx) (y + vy)")
      case None
      then show ?thesis by (simp add: neighborContribution_def dustInput_def v)
    next
      case (Some p)
      obtain i e where p: "p = (i, e)" by (cases p)
      show ?thesis
      proof (cases "redstone e")
        case None
        then show ?thesis using Some p by (simp add: neighborContribution_def dustInput_def v)
      next
        case r: (Some r)
        obtain q where q: "getPowerOutput s (x + vx) (y + vy) (opposite dir) r = Some q"
          using getPowerOutput_total Some p by blast
        show ?thesis using Some p r q
          by (auto simp: neighborContribution_def dustInput_def v)
      qed
    qed
  qed
  obtain c0 where c0: "neighborContribution s x y 0 = Some c0"
      "\<And>m. 0 \<le> m \<Longrightarrow> dustInput s x y 0 m = Some (max m c0)" using step[of 0] by blast
  obtain c1 where c1: "neighborContribution s x y 1 = Some c1"
      "\<And>m. 0 \<le> m \<Longrightarrow> dustInput s x y 1 m = Some (max m c1)" using step[of 1] by blast
  obtain c2 where c2: "neighborContribution s x y 2 = Some c2"
      "\<And>m. 0 \<le> m \<Longrightarrow> dustInput s x y 2 m = Some (max m c2)" using step[of 2] by blast
  obtain c3 where c3: "neighborContribution s x y 3 = Some c3"
      "\<And>m. 0 \<le> m \<Longrightarrow> dustInput s x y 3 m = Some (max m c3)" using step[of 3] by blast
  have "dustMaxPower s x y = Some (max (max (max (max 0 c0) c1) c2) c3)"
    by (simp add: dustMaxPower_def c0(2) c1(2) c2(2) c3(2))
  moreover have "wireLevel s x y = Some (Max {0, c0, c1, c2, c3})"
    by (simp add: wireLevel_def c0(1) c1(1) c2(1) c3(1))
  moreover have "Max {0, c0, c1, c2, c3} = max (max (max (max 0 c0) c1) c2) c3"
    by (simp add: max_def)
  ultimately show ?thesis by (simp only:)
qed


lemma compOf_dustAssign:
  "compOf (dustAssign me x y m s) k
     = (if k = me then map_option (\<lambda>r. r\<lparr>powerLevel := m\<rparr>) (compOf s k) else compOf s k)"
  by (simp add: dustAssign_def compOf_setThis)

subsection \<open>Kinds without a registered component\<close>

lemma find_update_fresh:
  assumes "find P xs = None" "k \<notin> fst ` set xs" "P (k, v)"
  shows "find P (AList.update k v xs) = Some (k, v)"
  using assms by (induction xs) (auto split: if_splits)

lemma canPush_loop_immovable:
  fixes count :: nat
  assumes "getBlockEntity s cx cy = Some (i, e)" "immovable (blockState e)"
  shows "\<not> canPush_loop s vec cx cy count"
  using assms by (subst canPush_loop.simps) (auto simp: immovable_def)

text \<open>
  Claim C10. A kind string with no entry in the component registry, as
  \<open>minecraft:obsidian\<close> and \<open>minecraft:bedrock\<close>, still gets a block record from
  \<open>createEntity\<close>: a position, the default blockState (rotation 0, not powered, level 0)
  and no logic component. \<open>getPower\<close> reads 0 from such a block in every direction, and
  \<open>canPush\<close> refuses a chain in which it meets an obsidian or bedrock block.
\<close>

theorem unregistered_kind_block:
  assumes "componentRegistry ty = None"
  shows "createEntity n ty x y s
           = Some (nextId s,
                   s\<lparr>nextId := nextId s + 1,
                     entities := AList.update (nextId s) (newEntity ty x y) (entities s)\<rparr>)
         \<and> newEntity ty x y
           = \<lparr>position = (x, y), redstone = None,
              blockState = \<lparr>bs_type = ty, bs_rotation = 0, bs_powered = False,
                bs_powerLevel = 0, bs_waterlogged = False, bs_extended = False,
                bs_isSticky = False\<rparr>\<rparr>
         \<and> (getBlockEntity s x y = None \<and> nextId s \<notin> fst ` set (entities s) \<longrightarrow>
              getBlockEntity
                (s\<lparr>nextId := nextId s + 1,
                   entities := AList.update (nextId s) (newEntity ty x y) (entities s)\<rparr>) x y
              = Some (nextId s, newEntity ty x y))
         \<and> (\<forall>t tx ty' d i.
               getBlockEntity t (tx + fst (toVector d)) (ty' + snd (toVector d))
                 = Some (i, newEntity ty x y)
               \<longrightarrow> getPower t tx ty' d = Some 0)
         \<and> (ty = ''minecraft:obsidian'' \<or> ty = ''minecraft:bedrock'' \<longrightarrow>
              (\<forall>t vec cx cy count i.
                 getBlockEntity t cx cy = Some (i, newEntity ty x y)
                 \<longrightarrow> \<not> canPush_loop t vec cx cy count))
         \<and> componentRegistry ''minecraft:obsidian'' = None
         \<and> componentRegistry ''minecraft:bedrock'' = None"
proof -
  have r: "redstone (newEntity ty x y) = None"
    using assms by (simp add: newEntity_def)
  have a: "createEntity n ty x y s
           = Some (nextId s,
                   s\<lparr>nextId := nextId s + 1,
                     entities := AList.update (nextId s) (newEntity ty x y) (entities s)\<rparr>)"
    using r by (simp add: createEntity_def Let_def)
  have b: "newEntity ty x y
           = \<lparr>position = (x, y), redstone = None,
              blockState = \<lparr>bs_type = ty, bs_rotation = 0, bs_powered = False,
                bs_powerLevel = 0, bs_waterlogged = False, bs_extended = False,
                bs_isSticky = False\<rparr>\<rparr>"
    using assms by (simp add: newEntity_def)
  have c: "getBlockEntity s x y = None \<and> nextId s \<notin> fst ` set (entities s) \<longrightarrow>
              getBlockEntity
                (s\<lparr>nextId := nextId s + 1,
                   entities := AList.update (nextId s) (newEntity ty x y) (entities s)\<rparr>) x y
              = Some (nextId s, newEntity ty x y)"
    by (auto simp: getBlockEntity_def newEntity_def intro!: find_update_fresh)
  have d: "\<forall>t tx ty' d i.
               getBlockEntity t (tx + fst (toVector d)) (ty' + snd (toVector d))
                 = Some (i, newEntity ty x y)
               \<longrightarrow> getPower t tx ty' d = Some 0"
    using r by (auto simp: getPower_def Let_def split: prod.splits)
  have e: "ty = ''minecraft:obsidian'' \<or> ty = ''minecraft:bedrock'' \<longrightarrow>
              (\<forall>t vec cx cy count i.
                 getBlockEntity t cx cy = Some (i, newEntity ty x y)
                 \<longrightarrow> \<not> canPush_loop t vec cx cy count)"
  proof (intro impI allI)
    fix t vec cx cy count i
    assume ty: "ty = ''minecraft:obsidian'' \<or> ty = ''minecraft:bedrock''"
      and g: "getBlockEntity t cx cy = Some (i, newEntity ty x y)"
    have "immovable (blockState (newEntity ty x y))"
      using ty by (auto simp: immovable_def newEntity_def)
    then show "\<not> canPush_loop t vec cx cy count"
      by (rule canPush_loop_immovable[OF g])
  qed
  have f: "componentRegistry ''minecraft:obsidian'' = None"
    "componentRegistry ''minecraft:bedrock'' = None"
    by (simp_all add: componentRegistry_def)
  from a b c d e f show ?thesis by blast
qed

theorem unregistered_kind_block_witness:
  "componentRegistry ''minecraft:obsidian'' = None
   \<and> createEntity 5 ''minecraft:obsidian'' 3 4 (RedstoneSimulator 64 48) = Some (1, obsidianScene)
   \<and> getBlockEntity obsidianScene 3 4 = Some (1, newEntity ''minecraft:obsidian'' 3 4)
   \<and> getPower obsidianScene 3 5 0 = Some 0
   \<and> \<not> canPush obsidianScene 3 5 0"
proof -
  have h: "componentRegistry ''minecraft:obsidian'' = None" by code_simp
  let ?s0 = "RedstoneSimulator 64 48"
  let ?s1 = "?s0\<lparr>nextId := nextId ?s0 + 1,
               entities := AList.update (nextId ?s0) (newEntity ''minecraft:obsidian'' 3 4)
                             (entities ?s0)\<rparr>"
  note t = unregistered_kind_block[OF h, of 5 3 4 ?s0]
  have s: "?s1 = obsidianScene"
    by (simp add: RedstoneSimulator_def obsidianScene_def)
  have n: "nextId ?s0 = 1" by (simp add: RedstoneSimulator_def)
  have "createEntity 5 ''minecraft:obsidian'' 3 4 ?s0 = Some (nextId ?s0, ?s1)"
    using t by (rule conjunct1)
  then have c1: "createEntity 5 ''minecraft:obsidian'' 3 4 ?s0 = Some (1, obsidianScene)"
    using s n by simp
  have e0: "getBlockEntity ?s0 3 4 = None \<and> nextId ?s0 \<notin> fst ` set (entities ?s0)"
    by (simp add: RedstoneSimulator_def getBlockEntity_def)
  have "getBlockEntity ?s0 3 4 = None \<and> nextId ?s0 \<notin> fst ` set (entities ?s0)
        \<longrightarrow> getBlockEntity ?s1 3 4 = Some (nextId ?s0, newEntity ''minecraft:obsidian'' 3 4)"
    using t by blast
  with e0 have "getBlockEntity ?s1 3 4 = Some (nextId ?s0, newEntity ''minecraft:obsidian'' 3 4)"
    by blast
  then have g: "getBlockEntity obsidianScene 3 4 = Some (1, newEntity ''minecraft:obsidian'' 3 4)"
    using s n by simp
  have v: "(3::int) + fst (toVector 0) = 3" "(5::int) + snd (toVector 0) = 4"
    by (simp_all add: toVector_def)
  have g': "getBlockEntity obsidianScene (3 + fst (toVector 0)) (5 + snd (toVector 0))
            = Some (1, newEntity ''minecraft:obsidian'' 3 4)"
    using g by (simp only: v)
  have "\<forall>t tx ty' d i.
               getBlockEntity t (tx + fst (toVector d)) (ty' + snd (toVector d))
                 = Some (i, newEntity ''minecraft:obsidian'' 3 4)
               \<longrightarrow> getPower t tx ty' d = Some 0"
    using t by blast
  with g' have p: "getPower obsidianScene 3 5 0 = Some 0" by blast
  have "\<forall>t vec cx cy count i.
                 getBlockEntity t cx cy = Some (i, newEntity ''minecraft:obsidian'' 3 4)
                 \<longrightarrow> \<not> canPush_loop t vec cx cy count"
    using t by blast
  with g' have q: "\<not> canPush obsidianScene 3 5 0"
    unfolding canPush_def by blast
  from h c1 g p q show ?thesis by blast
qed

subsection \<open>The torch\<close>

lemma torchScene_reachable:
  "run [placeOrInteract 20 ''minecraft:redstone_block'' 1 2,
        placeOrInteract 20 ''minecraft:redstone_torch'' 1 1] (RedstoneSimulator 64 48)
   = Some torchScene"
  by code_simp

text \<open>
  Claim C4 as stated takes the torch's attachment direction to be the direction its
  rotation indexes. A torch with rotation 0 (north) under a powered block: the power
  entering from the north is 15, yet after its scheduled reevaluation the torch is lit,
  and it emits 15 toward the north and 0 toward the south.
\<close>

theorem torch_attachment_counterexample:
  "map_option rotations (run torchUnderBlock (RedstoneSimulator 64 48)) = Some [(1, 0), (2, 0)]
   \<and> Option.bind (run torchUnderBlock (RedstoneSimulator 64 48)) (powerInto 1 1 0) = Some 15
   \<and> map_option levels (run torchUnderBlock (RedstoneSimulator 64 48))
     = Some [(1, Some 15), (2, Some 15)]
   \<and> Option.bind (run torchUnderBlock (RedstoneSimulator 64 48)) (outputToward 1 1 0) = Some 15
   \<and> Option.bind (run torchUnderBlock (RedstoneSimulator 64 48)) (outputToward 1 1 2) = Some 0"
  by code_simp

subsection \<open>Due entries and the block they find\<close>



subsection \<open>Assignments to one entity and the lookup by cell\<close>

lemma find_map_entry_distinct:
  assumes "distinct (map fst xs)" "\<And>v. P (k, f v) = P (k, v)"
  shows "find P (AList.map_entry k f xs)
         = map_option (\<lambda>(i, v). (i, if i = k then f v else v)) (find P xs)"
  using assms(1)
proof (induction xs)
  case Nil
  then show ?case by simp
next
  case (Cons p ps)
  obtain a b where p: "p = (a, b)" by (cases p)
  show ?case
  proof (cases "a = k")
    case True
    have "\<And>i v. find P ps = Some (i, v) \<Longrightarrow> i \<noteq> k"
    proof
      fix i v assume "find P ps = Some (i, v)" "i = k"
      then have "(k, v) \<in> set ps" by (auto simp: find_Some_iff in_set_conv_nth)
      then have "k \<in> fst ` set ps" by force
      with Cons.prems p True show False by simp
    qed
    then have "map_option (\<lambda>(i, v). (i, if i = k then f v else v)) (find P ps) = find P ps"
      by (cases "find P ps") auto
    then show ?thesis using p True assms(2) by simp
  next
    case False
    then show ?thesis using p Cons by simp
  qed
qed

lemma getBlockEntity_setThis:
  assumes "distinct_ids s"
  shows "getBlockEntity (setThis me f s) x y
         = map_option (\<lambda>(i, e). (i, if i = me then e\<lparr>redstone := map_option f (redstone e)\<rparr> else e))
             (getBlockEntity s x y)"
  unfolding getBlockEntity_def setThis_def
  using find_map_entry_distinct[of "entities s" "\<lambda>(i, e). position e = (x, y)" me
          "\<lambda>e. e\<lparr>redstone := map_option f (redstone e)\<rparr>"] assms
  by (simp add: distinct_ids_def)

lemma getBlockEntity_setBlockState:
  assumes "distinct_ids s"
  shows "getBlockEntity (setBlockState k f s) x y
         = map_option (\<lambda>(i, e). (i, if i = k then e\<lparr>blockState := f (blockState e)\<rparr> else e))
             (getBlockEntity s x y)"
  unfolding getBlockEntity_def setBlockState_def
  using find_map_entry_distinct[of "entities s" "\<lambda>(i, e). position e = (x, y)" k
          "\<lambda>e. e\<lparr>blockState := f (blockState e)\<rparr>"] assms
  by (simp add: distinct_ids_def)

lemma rotationAt_setThis:
  assumes "distinct_ids s"
  shows "rotationAt (setThis me f s) x y = rotationAt s x y"
proof (cases "getBlockEntity s x y")
  case None
  then show ?thesis by (simp add: rotationAt_def getBlockEntity_setThis[OF assms])
next
  case (Some p)
  obtain i e where p: "p = (i, e)" by (cases p)
  show ?thesis by (simp add: rotationAt_def getBlockEntity_setThis[OF assms] Some p)
qed

lemma getPowerOutput_locked:
  assumes "distinct_ids s"
  shows "getPowerOutput (setThis me (\<lambda>r. r\<lparr>locked := b\<rparr>) s) x y d c = getPowerOutput s x y d c"
    and "getPowerOutput (setThis me (\<lambda>r. r\<lparr>locked := b\<rparr>) s) x y d (c\<lparr>locked := b\<rparr>)
         = getPowerOutput s x y d c"
proof -
  have r: "rotationAt (setThis me (\<lambda>r. r\<lparr>locked := b\<rparr>) s) x y = rotationAt s x y"
    by (rule rotationAt_setThis[OF assms])
  show "getPowerOutput (setThis me (\<lambda>r. r\<lparr>locked := b\<rparr>) s) x y d c = getPowerOutput s x y d c"
    by (cases "cls c"; cases "rotationAt s x y"; simp add: getPowerOutput_def r)
  show "getPowerOutput (setThis me (\<lambda>r. r\<lparr>locked := b\<rparr>) s) x y d (c\<lparr>locked := b\<rparr>)
        = getPowerOutput s x y d c"
    by (cases "cls c"; cases "rotationAt s x y"; simp add: getPowerOutput_def r)
qed

lemma getPower_locked:
  assumes "distinct_ids s"
  shows "getPower (setThis me (\<lambda>r. r\<lparr>locked := b\<rparr>) s) x y d = getPower s x y d"
proof -
  obtain vx vy where v: "toVector d = (vx, vy)" by (cases "toVector d")
  show ?thesis
  proof (cases "getBlockEntity s (x + vx) (y + vy)")
    case None
    then show ?thesis by (simp add: getPower_def v getBlockEntity_setThis[OF assms])
  next
    case (Some p)
    obtain i e where p: "p = (i, e)" by (cases p)
    show ?thesis
      using Some p getPowerOutput_locked[OF assms]
      by (cases "redstone e") (simp_all add: getPower_def v getBlockEntity_setThis[OF assms])
  qed
qed

lemma stateOf_updateBlockState_entity:
  assumes "distinct_ids s" "getBlockEntity s x y = Some (me, e)"
  shows "stateOf (updateBlockState x y g (setThis me f s)) me = Some (g (blockState e))"
  using assms stateOf_entity[OF assms]
  by (simp add: updateBlockState_def getBlockEntity_setThis stateOf_setBlockState)

subsection \<open>The repeater\<close>

text \<open>
  Claim C6 as stated has the repeater's scheduled callback commit and notify only when
  the recomputed state differs from the current one. Here the repeater is unlocked and
  not powered and its rear input is 0, so the two agree; the pending entry for its cell
  (1, 1) is dispatched all the same, and the neighbors are notified: the torch beside
  it answers by queueing a reevaluation of itself, the third entry of the queue.
\<close>

theorem repeater_commit_counterexample:
  "map_option repeaters (run repeaterIdle (RedstoneSimulator 64 48)) = Some [(1, False, False, 0)]
   \<and> Option.bind (run repeaterIdle (RedstoneSimulator 64 48)) (powerInto 1 1 2) = Some 0
   \<and> map_option nextTickList (run repeaterIdle (RedstoneSimulator 64 48))
     = Some [\<lparr>sx = 2, sy = 1, time = 2, priority = 0\<rparr>, \<lparr>sx = 1, sy = 1, time = 2, priority = 0\<rparr>]
   \<and> map_option nextTickList
       (Option.bind (run repeaterIdle (RedstoneSimulator 64 48))
          (dispatchTick 2 \<lparr>sx = 1, sy = 1, time = 2, priority = 0\<rparr>))
     = Some [\<lparr>sx = 2, sy = 1, time = 2, priority = 0\<rparr>, \<lparr>sx = 1, sy = 1, time = 2, priority = 0\<rparr>,
             \<lparr>sx = 2, sy = 1, time = 3, priority = 0\<rparr>]"
  by code_simp


text \<open>
  Claim C6, amended. For a repeater that its side inputs leave unlocked, a neighbor
  update where the desired state (rear power positive) differs from the current
  \<open>powered\<close> queues an update \<open>delay * 2\<close> game ticks after the current clock. The
  scheduled callback of an unlocked repeater recomputes the desired state from the rear
  input at fire time and always commits it: it assigns \<open>powered\<close> and the level 15 or 0,
  sets the visual tag and flag, and notifies the neighbors, whether or not the state
  differs from the current one. On a locked repeater the callback does nothing.
\<close>

theorem repeater_update_and_tick:
  assumes "distinct_ids s" "getBlockEntity s x y = Some (me, e)" "redstone e = Some c"
    "cls c = RepeaterComponent"
  shows "\<exists>left right rear.
           getRepeaterInput s x y (js_rem (bs_rotation (blockState e) + 3) 4) = Some left
         \<and> getRepeaterInput s x y (js_rem (bs_rotation (blockState e) + 1) 4) = Some right
         \<and> getPower s x y (js_rem (bs_rotation (blockState e) + 2) 4) = Some rear
         \<and> (\<not> (left > 0 \<or> right > 0) \<and> (rear > 0) \<noteq> powered c \<longrightarrow>
               (\<forall>n fx fy. \<exists>s'. onNeighborUpdate n me c x y fx fy s = Some s'
                  \<and> nextTickList s'
                     = nextTickList s
                       @ [\<lparr>sx = x, sy = y, time = tickCount s + delay c * 2, priority = 0\<rparr>]))
         \<and> (\<not> locked c \<longrightarrow>
               (\<forall>n. onScheduledTick n me c x y s
                      = notifyNeighbors n x y (repeaterCommit me x y (rear > 0) s)))
         \<and> (\<not> locked c \<longrightarrow>
               (\<forall>n s'. onScheduledTick n me c x y s = Some s' \<longrightarrow>
                  (\<exists>c' b'. compOf s' me = Some c' \<and> powered c' = (rear > 0)
                     \<and> powerLevel c' = (if rear > 0 then 15 else 0)
                     \<and> stateOf s' me = Some b' \<and> bs_powered b' = (rear > 0)
                     \<and> bs_type b' = (if rear > 0 then ''minecraft:repeater_on''
                                       else ''minecraft:repeater''))))
         \<and> (locked c \<longrightarrow> (\<forall>n. onScheduledTick n me c x y s = Some s))"
proof -
  let ?rot = "bs_rotation (blockState e)"
  obtain left where left: "getRepeaterInput s x y (js_rem (?rot + 3) 4) = Some left"
    using getRepeaterInput_total by blast
  obtain right where right: "getRepeaterInput s x y (js_rem (?rot + 1) 4) = Some right"
    using getRepeaterInput_total by blast
  obtain rear where rear: "getPower s x y (js_rem (?rot + 2) 4) = Some rear"
    using getPower_total by blast
  note rot = rotationAt_Some[OF assms(2)]
  have me: "compOf s me = Some c" using compOf_entity[OF assms(1,2)] assms(3) by simp
  have a: "\<not> (left > 0 \<or> right > 0) \<and> (rear > 0) \<noteq> powered c \<longrightarrow>
               (\<forall>n fx fy. \<exists>s'. onNeighborUpdate n me c x y fx fy s = Some s'
                  \<and> nextTickList s'
                     = nextTickList s
                       @ [\<lparr>sx = x, sy = y, time = tickCount s + delay c * 2, priority = 0\<rparr>])"
  proof (intro impI allI)
    fix n fx fy
    assume h: "\<not> (left > 0 \<or> right > 0) \<and> (rear > 0) \<noteq> powered c"
    let ?s1 = "setThis me (\<lambda>r. r\<lparr>locked := False\<rparr>) s"
    have "onNeighborUpdate n me c x y fx fy s
          = Some (scheduleBlockUpdate x y (delay c * 2) 0 ?s1)"
      using h assms(4) rot left right rear getPower_locked[OF assms(1)]
      by (auto simp: onNeighborUpdate_def onNeighborUpdate_body_def
                     RepeaterComponent_onNeighborUpdate_def Let_def)
    moreover have "nextTickList (scheduleBlockUpdate x y (delay c * 2) 0 ?s1)
                   = nextTickList s
                     @ [\<lparr>sx = x, sy = y, time = tickCount s + delay c * 2, priority = 0\<rparr>]"
      by (simp add: scheduleBlockUpdate_def setThis_def)
    ultimately show "\<exists>s'. onNeighborUpdate n me c x y fx fy s = Some s'
                  \<and> nextTickList s'
                     = nextTickList s
                       @ [\<lparr>sx = x, sy = y, time = tickCount s + delay c * 2, priority = 0\<rparr>]"
      by simp
  qed
  have b: "\<not> locked c \<longrightarrow>
               (\<forall>n. onScheduledTick n me c x y s
                      = notifyNeighbors n x y (repeaterCommit me x y (rear > 0) s))"
    using assms(4) rot rear
    by (simp add: onScheduledTick_def RepeaterComponent_onScheduledTick_def)
  have c: "\<not> locked c \<longrightarrow>
               (\<forall>n s'. onScheduledTick n me c x y s = Some s' \<longrightarrow>
                  (\<exists>c' b'. compOf s' me = Some c' \<and> powered c' = (rear > 0)
                     \<and> powerLevel c' = (if rear > 0 then 15 else 0)
                     \<and> stateOf s' me = Some b' \<and> bs_powered b' = (rear > 0)
                     \<and> bs_type b' = (if rear > 0 then ''minecraft:repeater_on''
                                       else ''minecraft:repeater'')))"
  proof (intro impI allI)
    fix n s'
    assume u: "\<not> locked c" and r: "onScheduledTick n me c x y s = Some s'"
    let ?s2 = "repeaterCommit me x y (rear > 0) s"
    have n: "notifyNeighbors n x y ?s2 = Some s'" using b u r by simp
    have d2: "distinct_ids ?s2" using assms(1) by (simp add: repeaterCommit_def)
    have cas: "cascade ?s2 s'" by (rule cascade_notifyNeighbors[OF d2 n])
    have c2: "compOf ?s2 me
              = Some (c\<lparr>powered := rear > 0, powerLevel := (if rear > 0 then 15 else 0)\<rparr>)"
      using me by (simp add: repeaterCommit_def compOf_setThis)
    have b2: "stateOf ?s2 me
              = Some ((blockState e)\<lparr>bs_type := (if rear > 0 then ''minecraft:repeater_on''
                                                   else ''minecraft:repeater''),
                                     bs_powered := rear > 0\<rparr>)"
      unfolding repeaterCommit_def
      by (rule stateOf_updateBlockState_entity[OF assms(1,2)])
    obtain c' where c': "compOf s' me = Some c'"
      "same_but_level (c\<lparr>powered := rear > 0, powerLevel := (if rear > 0 then 15 else 0)\<rparr>) c'"
      using cascade_compOf_Some[OF cas c2] by blast
    have p1: "powered c' = (rear > 0)" using same_but_levelD(3)[OF c'(2)] by simp
    have p2: "powerLevel c' = (if rear > 0 then 15 else 0)"
      using same_but_levelD(10)[OF c'(2)] assms(4) by simp
    from cascade_stateOf[OF cas, of me] b2
    obtain b' where b': "stateOf s' me = Some b'"
      "b'\<lparr>bs_powerLevel := bs_powerLevel (blockState e)\<rparr>
         = (blockState e)\<lparr>bs_type := (if rear > 0 then ''minecraft:repeater_on''
                                       else ''minecraft:repeater''),
                          bs_powered := rear > 0\<rparr>"
      by (cases "stateOf s' me") auto
    have q1: "bs_powered b' = (rear > 0)"
      using arg_cong[OF b'(2), of bs_powered] by simp
    have q2: "bs_type b' = (if rear > 0 then ''minecraft:repeater_on'' else ''minecraft:repeater'')"
      using arg_cong[OF b'(2), of bs_type] by simp
    from c'(1) p1 p2 b'(1) q1 q2
    show "\<exists>c' b'. compOf s' me = Some c' \<and> powered c' = (rear > 0)
                     \<and> powerLevel c' = (if rear > 0 then 15 else 0)
                     \<and> stateOf s' me = Some b' \<and> bs_powered b' = (rear > 0)
                     \<and> bs_type b' = (if rear > 0 then ''minecraft:repeater_on''
                                       else ''minecraft:repeater'')"
      by blast
  qed
  have d: "locked c \<longrightarrow> (\<forall>n. onScheduledTick n me c x y s = Some s)"
    using assms(4) by (simp add: onScheduledTick_def RepeaterComponent_onScheduledTick_def)
  show ?thesis
    by (rule exI[of _ left], rule exI[of _ right], rule exI[of _ rear])
       (intro conjI; fact left right rear a b c d)
qed


theorem repeater_update_and_tick_witness:
  "distinct_ids repeaterScene
   \<and> getBlockEntity repeaterScene 1 1 = Some (1, newEntity ''minecraft:repeater'' 1 1)
   \<and> redstone (newEntity ''minecraft:repeater'' 1 1) = Some (new_component RepeaterComponent)
   \<and> getPower repeaterScene 1 1 2 = Some 15
   \<and> map_option nextTickList
        (onNeighborUpdate 3 1 (new_component RepeaterComponent) 1 1 1 2 repeaterScene)
      = Some [\<lparr>sx = 1, sy = 1, time = 2, priority = 0\<rparr>, \<lparr>sx = 1, sy = 1, time = 2, priority = 0\<rparr>]
   \<and> map_option (\<lambda>s'. map_option powered (compOf s' 1))
        (onScheduledTick 3 1 (new_component RepeaterComponent) 1 1 repeaterScene)
      = Some (Some True)"
proof -
  let ?e = "newEntity ''minecraft:repeater'' 1 1"
  let ?c = "new_component RepeaterComponent"
  have h1: "distinct_ids repeaterScene" by code_simp
  have h2: "getBlockEntity repeaterScene 1 1 = Some (1, ?e)" by code_simp
  have h3: "redstone ?e = Some ?c" by code_simp
  have h4: "cls ?c = RepeaterComponent" by code_simp
  have g: "getRepeaterInput repeaterScene 1 1 (js_rem (bs_rotation (blockState ?e) + 3) 4) = Some 0"
    "getRepeaterInput repeaterScene 1 1 (js_rem (bs_rotation (blockState ?e) + 1) 4) = Some 0"
    "getPower repeaterScene 1 1 (js_rem (bs_rotation (blockState ?e) + 2) 4) = Some 15"
    by code_simp+
  have g2: "getPower repeaterScene 1 1 2 = Some 15" by code_simp
  have f: "\<not> locked ?c" "\<not> powered ?c" "delay ?c = 1" "tickCount repeaterScene = 0"
    "nextTickList repeaterScene = [\<lparr>sx = 1, sy = 1, time = 2, priority = 0\<rparr>]"
    by code_simp+
  obtain s2 where r: "onScheduledTick 3 1 ?c 1 1 repeaterScene = Some s2"
    by (cases "onScheduledTick 3 1 ?c 1 1 repeaterScene") (code_simp, blast)
  from repeater_update_and_tick[OF h1 h2 h3 h4] g
  have a: "\<not> ((0::int) > 0 \<or> (0::int) > 0) \<and> ((15::int) > 0) \<noteq> powered ?c \<longrightarrow>
             (\<forall>n fx fy. \<exists>s'. onNeighborUpdate n 1 ?c 1 1 fx fy repeaterScene = Some s'
                \<and> nextTickList s'
                   = nextTickList repeaterScene
                     @ [\<lparr>sx = 1, sy = 1, time = tickCount repeaterScene + delay ?c * 2,
                         priority = 0\<rparr>])"
    and b: "\<not> locked ?c \<longrightarrow>
             (\<forall>n s'. onScheduledTick n 1 ?c 1 1 repeaterScene = Some s' \<longrightarrow>
                (\<exists>c' b'. compOf s' 1 = Some c' \<and> powered c' = ((15::int) > 0)
                   \<and> powerLevel c' = (if (15::int) > 0 then 15 else 0)
                   \<and> stateOf s' 1 = Some b' \<and> bs_powered b' = ((15::int) > 0)
                   \<and> bs_type b' = (if (15::int) > 0 then ''minecraft:repeater_on''
                                     else ''minecraft:repeater'')))"
    by auto
  from a f have "\<forall>n fx fy. \<exists>s'. onNeighborUpdate n 1 ?c 1 1 fx fy repeaterScene = Some s'
                \<and> nextTickList s'
                   = nextTickList repeaterScene
                     @ [\<lparr>sx = 1, sy = 1, time = tickCount repeaterScene + delay ?c * 2,
                         priority = 0\<rparr>]"
    by simp
  then have "\<exists>s'. onNeighborUpdate 3 1 ?c 1 1 1 2 repeaterScene = Some s'
                \<and> nextTickList s'
                   = nextTickList repeaterScene
                     @ [\<lparr>sx = 1, sy = 1, time = tickCount repeaterScene + delay ?c * 2,
                         priority = 0\<rparr>]"
    by (elim allE)
  then obtain s1 where s1: "onNeighborUpdate 3 1 ?c 1 1 1 2 repeaterScene = Some s1"
    "nextTickList s1 = nextTickList repeaterScene
                        @ [\<lparr>sx = 1, sy = 1, time = tickCount repeaterScene + delay ?c * 2,
                            priority = 0\<rparr>]"
    by (elim exE conjE)
  have q: "map_option nextTickList (onNeighborUpdate 3 1 ?c 1 1 1 2 repeaterScene)
           = Some [\<lparr>sx = 1, sy = 1, time = 2, priority = 0\<rparr>, \<lparr>sx = 1, sy = 1, time = 2, priority = 0\<rparr>]"
    using s1 f by simp
  from b f r obtain c' where "compOf s2 1 = Some c'" "powered c' = ((15::int) > 0)" by blast
  then have p: "map_option (\<lambda>s'. map_option powered (compOf s' 1))
                  (onScheduledTick 3 1 ?c 1 1 repeaterScene) = Some (Some True)"
    using r by simp
  from h1 h2 h3 g2 q p show ?thesis by simp
qed

subsection \<open>Callbacks only append to the queue\<close>

lemma queue_grows_refl [simp]: "queue_grows s s"
  by (simp add: queue_grows_def)

lemma queue_grows_trans: "queue_grows a b \<Longrightarrow> queue_grows b c \<Longrightarrow> queue_grows a c"
  by (auto simp: queue_grows_def intro: prefix_order.order_trans)

lemma queue_grows_from:
  "tickCount a = tickCount s \<Longrightarrow> nextTickList a = nextTickList s \<Longrightarrow> queue_grows a s'
   \<Longrightarrow> queue_grows s s'"
  by (simp add: queue_grows_def)

lemma queue_setThis [simp]:
  "tickCount (setThis me f s) = tickCount s" "nextTickList (setThis me f s) = nextTickList s"
  by (simp_all add: setThis_def)

lemma queue_setBlockState [simp]:
  "tickCount (setBlockState i f s) = tickCount s"
  "nextTickList (setBlockState i f s) = nextTickList s"
  by (simp_all add: setBlockState_def)

lemma queue_setPosition [simp]:
  "tickCount (setPosition i p s) = tickCount s" "nextTickList (setPosition i p s) = nextTickList s"
  by (simp_all add: setPosition_def)

lemma queue_updateBlockState [simp]:
  "tickCount (updateBlockState x y f s) = tickCount s"
  "nextTickList (updateBlockState x y f s) = nextTickList s"
  by (simp_all add: updateBlockState_def split: option.splits)

lemma queue_removeEntity [simp]:
  "tickCount (removeEntity i s) = tickCount s" "nextTickList (removeEntity i s) = nextTickList s"
  by (simp_all add: removeEntity_def)

lemma queue_dustAssign [simp]:
  "tickCount (dustAssign me x y m s) = tickCount s"
  "nextTickList (dustAssign me x y m s) = nextTickList s"
  by (simp_all add: dustAssign_def)

lemma queue_repeaterCommit [simp]:
  "tickCount (repeaterCommit me x y b s) = tickCount s"
  "nextTickList (repeaterCommit me x y b s) = nextTickList s"
  by (simp_all add: repeaterCommit_def)

lemma queue_scheduleBlockUpdate [simp]:
  "tickCount (scheduleBlockUpdate x y d p s) = tickCount s"
  "nextTickList (scheduleBlockUpdate x y d p s)
     = nextTickList s @ [\<lparr>sx = x, sy = y, time = tickCount s + d, priority = p\<rparr>]"
  by (simp_all add: scheduleBlockUpdate_def)

lemma queue_grows_schedule [simp]: "queue_grows s (scheduleBlockUpdate x y d p s)"
  by (simp add: queue_grows_def)

lemma queue_grows_schedule_after:
  "tickCount a = tickCount s \<Longrightarrow> nextTickList a = nextTickList s
   \<Longrightarrow> queue_grows s (scheduleBlockUpdate x y d p a)"
  by (simp add: queue_grows_def)

lemma queue_grows_same:
  "tickCount a = tickCount s \<Longrightarrow> nextTickList a = nextTickList s \<Longrightarrow> queue_grows s a"
  by (simp add: queue_grows_def)

lemma queue_Repeater_onNeighborUpdate:
  "RepeaterComponent_onNeighborUpdate me c x y s = Some s' \<Longrightarrow> queue_grows s s'"
  unfolding RepeaterComponent_onNeighborUpdate_def
  by (auto simp: Let_def queue_grows_schedule_after queue_grows_same split: bind_splits if_splits)

lemma queue_Observer_onNeighborUpdate:
  "ObserverComponent_onNeighborUpdate x y fx fy s = Some s' \<Longrightarrow> queue_grows s s'"
  unfolding ObserverComponent_onNeighborUpdate_def
  by (auto simp: Let_def split: bind_splits if_splits prod.splits)

lemma queue_Piston_onNeighborUpdate:
  "PistonComponent_onNeighborUpdate c x y s = Some s' \<Longrightarrow> queue_grows s s'"
  unfolding PistonComponent_onNeighborUpdate_def
  by (auto simp: Let_def split: bind_splits if_splits)

lemma queue_onNeighborUpdate_body:
  assumes notify: "\<And>x y s s'. notify x y s = Some s' \<Longrightarrow> queue_grows s s'"
    and r: "onNeighborUpdate_body notify me c x y fx fy s = Some s'"
  shows "queue_grows s s'"
proof (cases "cls c = RedstoneDustComponent")
  case True
  from r True obtain m where
    r': "(if powerLevel c \<noteq> m then notify x y (dustAssign me x y m s) else Some s) = Some s'"
    by (auto simp: onNeighborUpdate_body_def RedstoneDustComponent_onNeighborUpdate_def
             split: bind_splits)
  show ?thesis
  proof (cases "powerLevel c \<noteq> m")
    case False
    with r' show ?thesis by simp
  next
    case ch: True
    with r' have "queue_grows (dustAssign me x y m s) s'" using notify by simp
    then show ?thesis by (rule queue_grows_from[rotated 2]) simp_all
  qed
next
  case False
  with r show ?thesis
    by (cases "cls c")
       (auto simp: onNeighborUpdate_body_def
             dest: queue_Repeater_onNeighborUpdate queue_Observer_onNeighborUpdate
                   queue_Piston_onNeighborUpdate)
qed

lemma queue_notifyDir_body:
  assumes notify: "\<And>x y s s'. notify x y s = Some s' \<Longrightarrow> queue_grows s s'"
    and r: "notifyDir_body notify x y dir s = Some s'"
  shows "queue_grows s s'"
proof -
  obtain vx vy where v: "toVector dir = (vx, vy)" by (cases "toVector dir")
  show ?thesis
  proof (cases "getBlockEntity s (x + vx) (y + vy)")
    case None
    with r v show ?thesis by (simp add: notifyDir_body_def)
  next
    case (Some p)
    obtain i e where p: "p = (i, e)" by (cases p)
    show ?thesis
    proof (cases "redstone e")
      case None
      with r v Some p show ?thesis by (simp add: notifyDir_body_def)
    next
      case c: (Some c)
      have b: "onNeighborUpdate_body notify i c (x + vx) (y + vy) x y s = Some s'"
        using r v Some p c by (simp add: notifyDir_body_def)
      show ?thesis
        by (rule queue_onNeighborUpdate_body[where notify = notify, OF _ b]) (rule notify)
    qed
  qed
qed

lemma queue_notifyNeighbors: "notifyNeighbors n x y s = Some s' \<Longrightarrow> queue_grows s s'"
proof (induction n arbitrary: x y s s')
  case 0
  then show ?case by simp
next
  case (Suc n)
  have step: "\<And>x y s s'. notifyNeighbors n x y s = Some s' \<Longrightarrow> queue_grows s s'"
    using Suc.IH by blast
  from Suc.prems obtain s0 s1 s2 where
    d0: "notifyDir_body (notifyNeighbors n) x y 0 s = Some s0" and
    d1: "notifyDir_body (notifyNeighbors n) x y 1 s0 = Some s1" and
    d2: "notifyDir_body (notifyNeighbors n) x y 2 s1 = Some s2" and
    d3: "notifyDir_body (notifyNeighbors n) x y 3 s2 = Some s'"
    by (auto split: bind_splits)
  have "queue_grows s s0" by (rule queue_notifyDir_body[where notify = "notifyNeighbors n", OF _ d0]) (rule step)
  moreover have "queue_grows s0 s1" by (rule queue_notifyDir_body[where notify = "notifyNeighbors n", OF _ d1]) (rule step)
  moreover have "queue_grows s1 s2" by (rule queue_notifyDir_body[where notify = "notifyNeighbors n", OF _ d2]) (rule step)
  moreover have "queue_grows s2 s'" by (rule queue_notifyDir_body[where notify = "notifyNeighbors n", OF _ d3]) (rule step)
  ultimately show ?case by (blast intro: queue_grows_trans)
qed

lemma queue_notifyNeighbors_after:
  assumes "notifyNeighbors n x y a = Some s'" "tickCount a = tickCount s"
    "nextTickList a = nextTickList s"
  shows "queue_grows s s'"
  using queue_notifyNeighbors[OF assms(1)] assms(2,3) by (simp add: queue_grows_def)

lemma queue_onNeighborUpdate:
  "onNeighborUpdate n me c x y fx fy s = Some s' \<Longrightarrow> queue_grows s s'"
  unfolding onNeighborUpdate_def
  by (rule queue_onNeighborUpdate_body[where notify = "notifyNeighbors n"])
     (rule queue_notifyNeighbors)

lemma queue_moveItem: "moveItem n vec item s = Some s' \<Longrightarrow> queue_grows s s'"
  unfolding moveItem_def
  by (auto split: prod.splits option.splits bind_splits
           intro: queue_grows_trans[OF queue_notifyNeighbors_after queue_notifyNeighbors])

lemma queue_moveStack: "moveStack n vec stack s = Some s' \<Longrightarrow> queue_grows s s'"
proof (induction stack arbitrary: s)
  case Nil
  then show ?case by simp
next
  case (Cons item rest)
  then show ?case
    by (auto split: bind_splits intro: queue_grows_trans dest: queue_moveItem)
qed

lemma queue_doPush: "doPush n x y d s = Some s' \<Longrightarrow> queue_grows s s'"
  unfolding doPush_def by (auto split: bind_splits dest: queue_moveStack)

lemma queue_doPull: "doPull n x y d s = Some s' \<Longrightarrow> queue_grows s s'"
  unfolding doPull_def
  by (auto simp: Let_def split: prod.splits option.splits bind_splits if_splits
           intro: queue_grows_trans[OF queue_notifyNeighbors_after queue_notifyNeighbors])

lemma queue_onPlaced: "onPlaced n me c x y s = Some s' \<Longrightarrow> queue_grows s s'"
  unfolding onPlaced_def by (auto split: if_splits dest: queue_onNeighborUpdate)

lemma queue_createEntity: "createEntity n ty x y s = Some (i, s') \<Longrightarrow> queue_grows s s'"
  unfolding createEntity_def
  by (auto simp: Let_def queue_grows_def split: option.splits dest!: queue_onPlaced)

lemma queue_extend: "extend n me c x y s = Some s' \<Longrightarrow> queue_grows s s'"
proof -
  assume r: "extend n me c x y s = Some s'"
  show ?thesis
  proof (cases "extended c")
    case True
    with r show ?thesis by (simp add: extend_def)
  next
    case False
    from r False obtain pid e where g: "getBlockEntity s x y = Some (pid, e)"
      by (auto simp: extend_def split: option.splits)
    obtain vx vy where v: "toVector (bs_rotation (blockState e)) = (vx, vy)"
      by (cases "toVector (bs_rotation (blockState e))")
    show ?thesis
    proof (cases "canPush s x y (bs_rotation (blockState e))")
      case no: False
      with r False g v show ?thesis by (simp add: extend_def)
    next
      case yes: True
      let ?rot = "bs_rotation (blockState e)"
      from r False g v yes obtain s1 hid s4 where
        p: "doPush n x y ?rot s = Some s1" and
        c: "createEntity n ''minecraft:piston_head'' (x + vx) (y + vy)
              (case getBlockEntity
                      (updateBlockState x y (\<lambda>b. b\<lparr>bs_extended := True\<rparr>)
                         (setThis me (\<lambda>r. r\<lparr>extended := True\<rparr>) s1)) (x + vx) (y + vy) of
                 None \<Rightarrow> updateBlockState x y (\<lambda>b. b\<lparr>bs_extended := True\<rparr>)
                           (setThis me (\<lambda>r. r\<lparr>extended := True\<rparr>) s1)
               | Some (j, ex) \<Rightarrow>
                   removeEntity j
                     (updateBlockState x y (\<lambda>b. b\<lparr>bs_extended := True\<rparr>)
                        (setThis me (\<lambda>r. r\<lparr>extended := True\<rparr>) s1)))
            = Some (hid, s4)" and
        n: "notifyNeighbors n (x + vx) (y + vy)
              (setThis me (\<lambda>r. r\<lparr>headId := hid\<rparr>)
                 (setBlockState hid (\<lambda>b. b\<lparr>bs_rotation := ?rot, bs_isSticky := isSticky c\<rparr>)
                    (setThis hid (\<lambda>h. h\<lparr>sourcePistonId := pid, isSticky := isSticky c\<rparr>) s4)))
            = Some s'"
        by (auto simp: extend_def Let_def split: bind_splits)
      have a: "queue_grows s s1" by (rule queue_doPush[OF p])
      have b: "queue_grows s1 s4"
        by (rule queue_grows_from[OF _ _ queue_createEntity[OF c]])
           (simp_all split: option.splits)
      have d: "queue_grows s4 s'"
        by (rule queue_notifyNeighbors_after[OF n]) simp_all
      from a b d show ?thesis by (blast intro: queue_grows_trans)
    qed
  qed
qed

lemma queue_retract: "retract n me c x y s = Some s' \<Longrightarrow> queue_grows s s'"
proof -
  assume r: "retract n me c x y s = Some s'"
  show ?thesis
  proof (cases "extended c")
    case False
    with r show ?thesis by (simp add: retract_def)
  next
    case True
    from r True obtain pid e where g: "getBlockEntity s x y = Some (pid, e)"
      by (auto simp: retract_def split: option.splits)
    obtain vx vy where v: "toVector (bs_rotation (blockState e)) = (vx, vy)"
      by (cases "toVector (bs_rotation (blockState e))")
    let ?s1 = "updateBlockState x y (\<lambda>b. b\<lparr>bs_extended := False\<rparr>)
                 (setThis me (\<lambda>r. r\<lparr>extended := False\<rparr>) s)"
    from r True g v obtain s2 where
      h: "(if headId c \<noteq> -1
           then notifyNeighbors n (x + vx) (y + vy)
                  (setThis me (\<lambda>r. r\<lparr>headId := -1\<rparr>) (removeEntity (headId c) ?s1))
           else Some ?s1) = Some s2" and
      p: "(if isSticky c then doPull n x y (bs_rotation (blockState e)) s2 else Some s2) = Some s'"
      by (auto simp: retract_def Let_def split: bind_splits)
    have a: "queue_grows s s2"
    proof (cases "headId c \<noteq> -1")
      case True
      with h show ?thesis by (auto intro: queue_notifyNeighbors_after)
    next
      case False
      with h show ?thesis by (auto simp: queue_grows_def)
    qed
    have b: "queue_grows s2 s'"
      using p by (auto split: if_splits dest: queue_doPull)
    from a b show ?thesis by (rule queue_grows_trans)
  qed
qed

lemma queue_onScheduledTick: "onScheduledTick n me c x y s = Some s' \<Longrightarrow> queue_grows s s'"
proof -
  assume r: "onScheduledTick n me c x y s = Some s'"
  have q: "\<And>a x y d p. notifyNeighbors n x y a = Some s' \<Longrightarrow> tickCount a = tickCount s
            \<Longrightarrow> nextTickList a = nextTickList s \<Longrightarrow> queue_grows s s'"
    by (rule queue_notifyNeighbors_after)
  have q2: "\<And>a x y x' y' d p s1. notifyNeighbors n x y a = Some s1 \<Longrightarrow> tickCount a = tickCount s
            \<Longrightarrow> nextTickList a = nextTickList s
            \<Longrightarrow> queue_grows s (scheduleBlockUpdate x' y' d p s1)"
    by (rule queue_grows_trans[OF queue_notifyNeighbors_after queue_grows_schedule])
  show ?thesis
  proof (cases "cls c")
    case RedstoneTorchComponent
    with r show ?thesis
      by (auto simp: onScheduledTick_def RedstoneTorchComponent_onScheduledTick_def Let_def
               split: bind_splits if_splits intro!: q)
  next
    case ButtonComponent
    with r show ?thesis
      by (auto simp: onScheduledTick_def ButtonComponent_onScheduledTick_def intro!: q)
  next
    case RepeaterComponent
    with r show ?thesis
      by (auto simp: onScheduledTick_def RepeaterComponent_onScheduledTick_def
               split: bind_splits if_splits intro!: q)
  next
    case ComparatorComponent
    with r show ?thesis
      by (auto simp: onScheduledTick_def ComparatorComponent_onScheduledTick_def Let_def
               split: bind_splits if_splits intro!: q)
  next
    case ObserverComponent
    with r show ?thesis
      by (auto simp: onScheduledTick_def ObserverComponent_onScheduledTick_def
               split: bind_splits if_splits intro!: q q2)
  next
    case PistonComponent
    with r show ?thesis
      by (auto simp: onScheduledTick_def PistonComponent_onScheduledTick_def Let_def
               split: bind_splits if_splits dest: queue_extend queue_retract)
  next
    case StickyPistonComponent
    with r show ?thesis
      by (auto simp: onScheduledTick_def PistonComponent_onScheduledTick_def Let_def
               split: bind_splits if_splits dest: queue_extend queue_retract)
  qed (use r in \<open>simp_all add: onScheduledTick_def\<close>)
qed

lemma queue_dispatchTick: "dispatchTick n t s = Some s' \<Longrightarrow> queue_grows s s'"
  unfolding dispatchTick_def
  by (auto split: option.splits dest: queue_onScheduledTick)

lemma queue_processDue: "processDue n ts s = Some s' \<Longrightarrow> queue_grows s s'"
proof (induction ts arbitrary: s)
  case Nil
  then show ?case by simp
next
  case (Cons t ts)
  then show ?case
    by (auto split: bind_splits intro: queue_grows_trans dest: queue_dispatchTick)
qed


subsection \<open>When a queued entry fires\<close>

text \<open>
  An entry enqueued with delay 0 during a tick: the first comparator's tick changes its
  output and notifies the second, which queues itself with delay 0 at clock 1. The entry
  is still in the queue when that tick ends and leaves it on the next one.
\<close>

lemma delay_zero_fires_next_tick:
  "map_option nextTickList (run twoComparators (RedstoneSimulator 64 48))
     = Some [\<lparr>sx = 1, sy = 0, time = 0, priority = 0\<rparr>, \<lparr>sx = 2, sy = 0, time = 0, priority = 0\<rparr>]
   \<and> map_option tickCount (run (twoComparators @ [tick 20]) (RedstoneSimulator 64 48)) = Some 1
   \<and> map_option nextTickList (run (twoComparators @ [tick 20]) (RedstoneSimulator 64 48))
     = Some [\<lparr>sx = 2, sy = 0, time = 1, priority = 0\<rparr>]
   \<and> map_option nextTickList (run (twoComparators @ [tick 20, tick 20]) (RedstoneSimulator 64 48))
     = Some []"
  by code_simp

subsection \<open>Placement and the cells\<close>

text \<open>
  Claim C3 as stated has \<open>createEntity\<close> refuse an occupied or out-of-bounds cell, and
  concludes that no reachable state has two blocks in a cell. \<open>createEntity\<close> called
  twice for the cell (3, 4), and once for (-1, 100), inserts three records. And in a
  session where every placement goes through the editor's guard, the retracting sticky
  piston pulls the stone from (5, 3) into the cell (5, 4), where a stone already is.
\<close>

theorem create_occupied_counterexample:
  "map_option blocks
     (run [create 5 ''minecraft:stone'' 3 4, create 5 ''minecraft:stone'' 3 4,
           create 5 ''minecraft:stone'' (-1) 100] (RedstoneSimulator 64 48))
   = Some [(1, (3, 4), ''minecraft:stone''), (2, (3, 4), ''minecraft:stone''),
           (3, (-1, 100), ''minecraft:stone'')]
   \<and> map_option blocks (run stickyPull (RedstoneSimulator 64 48))
   = Some [(2, (5, 5), ''minecraft:sticky_piston''), (4, (5, 4), ''minecraft:stone''),
           (5, (5, 4), ''minecraft:stone'')]
   \<and> map_option one_per_cell (run stickyPull (RedstoneSimulator 64 48)) = Some False"
  by code_simp

lemma cells_map_entry:
  assumes "\<And>e. position (f e) = position e"
  shows "map (\<lambda>(i, e). (i, position e)) (AList.map_entry k f xs)
         = map (\<lambda>(i, e). (i, position e)) xs"
  by (induction xs) (auto simp: assms)

lemma cells_setThis [simp]: "cells (setThis me f s) = cells s"
  by (simp add: cells_def setThis_def cells_map_entry)

lemma cells_setBlockState [simp]: "cells (setBlockState i f s) = cells s"
  by (simp add: cells_def setBlockState_def cells_map_entry)

lemma cells_updateBlockState [simp]: "cells (updateBlockState x y f s) = cells s"
  by (simp add: updateBlockState_def split: option.splits)

lemma cells_scheduleBlockUpdate [simp]: "cells (scheduleBlockUpdate x y d p s) = cells s"
  by (simp add: cells_def scheduleBlockUpdate_def)

lemma cascade_cells: "cascade s s' \<Longrightarrow> cells s' = cells s"
proof -
  assume "cascade s s'"
  then have "list_all2 cascade_entity (entities s) (entities s')" by (simp add: cascade_def)
  then have "map (\<lambda>(i, e). (i, position e)) (entities s')
             = map (\<lambda>(i, e). (i, position e)) (entities s)"
    by (induction rule: list_all2_induct) (auto simp: cascade_entity_def split: prod.splits)
  then show ?thesis by (simp add: cells_def)
qed

lemma find_cells:
  "map_option fst (find (\<lambda>(i, e). position e = q) xs)
   = map_option fst (find (\<lambda>(i, p). p = q) (map (\<lambda>(i, e). (i, position e)) xs))"
  by (induction xs) auto

lemma getBlockEntity_cells:
  "map_option fst (getBlockEntity s x y) = map_option fst (find (\<lambda>(i, p). p = (x, y)) (cells s))"
  unfolding getBlockEntity_def cells_def by (rule find_cells)

lemma cells_same_block:
  assumes "cells s' = cells s" "getBlockEntity s x y = Some (i, e)"
  shows "\<exists>e'. getBlockEntity s' x y = Some (i, e')"
proof -
  have "map_option fst (getBlockEntity s' x y) = map_option fst (getBlockEntity s x y)"
    by (simp only: getBlockEntity_cells assms(1))
  then have "map_option fst (getBlockEntity s' x y) = Some i"
    using assms(2) by simp
  then show ?thesis by (cases "getBlockEntity s' x y") auto
qed

lemma cells_ids: "map fst (cells s) = map fst (entities s)"
  by (simp add: cells_def split_def comp_def)

lemma empty_cell_positions:
  assumes "getBlockEntity s x y = None"
  shows "(x, y) \<notin> set (map snd (cells s))"
proof -
  have "find (\<lambda>(i, p). p = (x, y)) (cells s) = None"
    using assms getBlockEntity_cells[of s x y] by simp
  then show ?thesis by (auto simp: find_None_iff)
qed

lemma set_update_subset: "set (AList.update k v ps) \<subseteq> insert (k, v) (set ps)"
  by (induction ps) auto

lemma positions_update:
  assumes "distinct (map (\<lambda>(i, e). position e) xs)" "position v \<notin> set (map (\<lambda>(i, e). position e) xs)"
  shows "distinct (map (\<lambda>(i, e). position e) (AList.update k v xs))"
  using assms
proof (induction xs)
  case Nil
  then show ?case by simp
next
  case (Cons p ps)
  obtain a b where p: "p = (a, b)" by (cases p)
  have sub: "set (map (\<lambda>(i, e). position e) (AList.update k v ps))
             \<subseteq> insert (position v) (set (map (\<lambda>(i, e). position e) ps))"
  proof
    fix q assume "q \<in> set (map (\<lambda>(i, e). position e) (AList.update k v ps))"
    then obtain j e where j: "(j, e) \<in> set (AList.update k v ps)" "q = position e" by auto
    then have "(j, e) = (k, v) \<or> (j, e) \<in> set ps" using set_update_subset[of k v ps] by blast
    then show "q \<in> insert (position v) (set (map (\<lambda>(i, e). position e) ps))"
      using j(2) by force
  qed
  show ?case
  proof (cases "a = k")
    case True
    then show ?thesis using Cons.prems p by auto
  next
    case False
    have "position b \<notin> insert (position v) (set (map (\<lambda>(i, e). position e) ps))"
      using Cons.prems p by auto
    then have "position b \<notin> set (map (\<lambda>(i, e). position e) (AList.update k v ps))"
      using sub by blast
    moreover have "distinct (map (\<lambda>(i, e). position e) (AList.update k v ps))"
      using Cons by auto
    ultimately show ?thesis using p False by simp
  qed
qed

lemma one_per_cell_positions:
  "one_per_cell s \<longleftrightarrow> distinct (map (\<lambda>(i, e). position e) (entities s))"
  by (simp add: one_per_cell_def cells_def comp_def split_def)

lemma one_per_cell_removeEntity: "one_per_cell s \<Longrightarrow> one_per_cell (removeEntity i s)"
  unfolding one_per_cell_positions removeEntity_def
  by (simp add: AList.delete_eq distinct_map_filter)

lemma one_per_cell_cells: "cells s' = cells s \<Longrightarrow> one_per_cell s' = one_per_cell s"
  by (simp add: one_per_cell_def)


lemma update_member: "(k, v) \<in> set (AList.update k v xs)"
  by (induction xs) auto

lemma createEntity_cells:
  assumes "distinct_ids s" "createEntity n ty x y s = Some (k, s')"
  shows "cells s' = cells (s\<lparr>entities := AList.update (nextId s) (newEntity ty x y) (entities s)\<rparr>)"
proof -
  let ?s1 = "s\<lparr>nextId := nextId s + 1,
               entities := AList.update (nextId s) (newEntity ty x y) (entities s)\<rparr>"
  have c1: "cells ?s1 = cells (s\<lparr>entities := AList.update (nextId s) (newEntity ty x y) (entities s)\<rparr>)"
    by (simp add: cells_def)
  have d1: "distinct_ids ?s1"
    using assms(1) by (simp add: distinct_ids_def distinct_update)
  show ?thesis
  proof (cases "redstone (newEntity ty x y)")
    case None
    with assms(2) have "s' = ?s1" by (auto simp: createEntity_def Let_def)
    with c1 show ?thesis by simp
  next
    case (Some c)
    with assms(2) have p: "onPlaced n (nextId s) c x y ?s1 = Some s'"
      by (auto simp: createEntity_def Let_def)
    have "cells s' = cells ?s1"
    proof (cases "cls c = RedstoneTorchComponent")
      case True
      with p show ?thesis by (auto simp: onPlaced_def)
    next
      case False
      with p have u: "onNeighborUpdate n (nextId s) c x y x y ?s1 = Some s'"
        by (simp add: onPlaced_def)
      have m: "(nextId s, newEntity ty x y) \<in> set (entities ?s1)"
        by (simp add: update_member)
      show ?thesis
        by (rule cascade_cells[OF cascade_onNeighborUpdate[OF d1 m Some u]])
    qed
    with c1 show ?thesis by simp
  qed
qed

text \<open>
  Claim C3, amended. \<open>createEntity\<close> itself checks neither bounds nor occupancy; the
  guard is the editor's \<open>placeOrInteract\<close>. Called for a coordinate outside the grid it
  changes nothing. Called for an occupied cell with a component selected it inserts no
  record and moves none: the block that was in the cell is still the block found there.
  And a call of \<open>placeOrInteract\<close> on a state with at most one block per cell returns a
  state with at most one block per cell.
\<close>

theorem placeOrInteract_guards:
  assumes "distinct_ids s" "placeOrInteract n selected x y s = Some s'"
  shows "(x < 0 \<or> x \<ge> width s \<or> y < 0 \<or> y \<ge> height s \<longrightarrow> s' = s)
         \<and> (\<forall>i e. getBlockEntity s x y = Some (i, e) \<and> selected \<noteq> ''erase'' \<longrightarrow>
               map fst (entities s') = map fst (entities s) \<and> cells s' = cells s
               \<and> (\<exists>e'. getBlockEntity s' x y = Some (i, e')))
         \<and> (one_per_cell s \<longrightarrow> one_per_cell s')"
proof -
  note r = assms(2)
  have A: "x < 0 \<or> x \<ge> width s \<or> y < 0 \<or> y \<ge> height s \<longrightarrow> s' = s"
    using r by (auto simp: placeOrInteract_def)
  have occ: "cells s' = cells s"
    if g: "getBlockEntity s x y = Some (i, e)" and ne: "selected \<noteq> ''erase''" for i e
  proof (cases "x < 0 \<or> x \<ge> width s \<or> y < 0 \<or> y \<ge> height s")
    case True
    with A show ?thesis by simp
  next
    case inb: False
    show ?thesis
    proof (cases "redstone e")
      case None
      with r inb g ne show ?thesis by (simp add: placeOrInteract_def)
    next
      case (Some c)
      consider (lever) "bs_type (blockState e) = ''minecraft:lever''"
        | (button) "bs_type (blockState e) \<noteq> ''minecraft:lever''"
                   "bs_type (blockState e) = ''minecraft:button''"
        | (other) "bs_type (blockState e) \<noteq> ''minecraft:lever''"
                  "bs_type (blockState e) \<noteq> ''minecraft:button''"
        by blast
      then show ?thesis
      proof cases
        case lever
        with r inb g ne Some have t: "toggle n i c x y s = Some s'"
          by (auto simp: placeOrInteract_def split: if_splits)
        let ?a = "updateBlockState x y
                    (\<lambda>b. b\<lparr>bs_powered := ((if powerLevel c > 0 then 0 else (15::int)) > 0)\<rparr>)
                    (setThis i (\<lambda>r. r\<lparr>powerLevel := (if powerLevel c > 0 then 0 else 15)\<rparr>) s)"
        from t have nn: "notifyNeighbors n x y ?a = Some s'"
          by (simp add: toggle_def Let_def)
        have "cascade ?a s'"
          by (rule cascade_notifyNeighbors[OF _ nn]) (simp add: assms(1))
        from cascade_cells[OF this] show ?thesis by simp
      next
        case button
        with r inb g ne Some have t: "press n i c x y s = Some s'"
          by (auto simp: placeOrInteract_def split: if_splits)
        show ?thesis
        proof (cases "powerLevel c = 0")
          case False
          with t show ?thesis by (simp add: press_def)
        next
          case True
          let ?a = "updateBlockState x y (\<lambda>b. b\<lparr>bs_powered := True\<rparr>)
                      (setThis i (\<lambda>r. r\<lparr>powerLevel := 15\<rparr>) s)"
          from t True obtain s1 where nn: "notifyNeighbors n x y ?a = Some s1"
            and s': "s' = scheduleBlockUpdate x y 20 0 s1"
            by (auto simp: press_def split: bind_splits)
          have "cascade ?a s1"
            by (rule cascade_notifyNeighbors[OF _ nn]) (simp add: assms(1))
          from cascade_cells[OF this] s' show ?thesis by simp
        qed
      next
        case other
        with r inb g ne Some show ?thesis by (simp add: placeOrInteract_def)
      qed
    qed
  qed
  have B: "\<forall>i e. getBlockEntity s x y = Some (i, e) \<and> selected \<noteq> ''erase'' \<longrightarrow>
               map fst (entities s') = map fst (entities s) \<and> cells s' = cells s
               \<and> (\<exists>e'. getBlockEntity s' x y = Some (i, e'))"
  proof (intro allI impI)
    fix i e assume h: "getBlockEntity s x y = Some (i, e) \<and> selected \<noteq> ''erase''"
    then have c: "cells s' = cells s" using occ by blast
    have "map fst (entities s') = map fst (entities s)"
      using arg_cong[OF c, of "map fst"] by (simp only: cells_ids)
    moreover have "\<exists>e'. getBlockEntity s' x y = Some (i, e')"
      using cells_same_block[OF c] h by blast
    ultimately show "map fst (entities s') = map fst (entities s) \<and> cells s' = cells s
               \<and> (\<exists>e'. getBlockEntity s' x y = Some (i, e'))"
      using c by blast
  qed
  have C: "one_per_cell s \<longrightarrow> one_per_cell s'"
  proof
    assume o: "one_per_cell s"
    show "one_per_cell s'"
    proof (cases "x < 0 \<or> x \<ge> width s \<or> y < 0 \<or> y \<ge> height s")
      case True
      with A o show ?thesis by simp
    next
      case inb: False
      show ?thesis
      proof (cases "getBlockEntity s x y")
        case (Some p)
        obtain i e where p: "p = (i, e)" by (cases p)
        show ?thesis
        proof (cases "selected = ''erase''")
          case True
          with r inb Some p have nn: "notifyNeighbors n x y (removeEntity i s) = Some s'"
            by (simp add: placeOrInteract_def)
          have "cascade (removeEntity i s) s'"
            by (rule cascade_notifyNeighbors[OF distinct_ids_removeEntity[OF assms(1)] nn])
          from cascade_cells[OF this] one_per_cell_removeEntity[OF o, of i]
          show ?thesis by (simp add: one_per_cell_def)
        next
          case False
          with occ Some p o show ?thesis by (simp add: one_per_cell_def)
        qed
      next
        case None
        show ?thesis
        proof (cases "selected = ''erase''")
          case True
          with r inb None o show ?thesis by (simp add: placeOrInteract_def)
        next
          case False
          with r inb None obtain k where c: "createEntity n selected x y s = Some (k, s')"
            by (auto simp: placeOrInteract_def)
          let ?s1 = "s\<lparr>entities := AList.update (nextId s) (newEntity selected x y) (entities s)\<rparr>"
          have "distinct (map (\<lambda>(i, e). position e) (entities ?s1))"
            using positions_update[of "entities s" "newEntity selected x y" "nextId s"]
              o empty_cell_positions[OF None]
            by (simp add: one_per_cell_positions newEntity_def cells_def comp_def split_def)
          then have "one_per_cell ?s1" by (simp only: one_per_cell_positions)
          with createEntity_cells[OF assms(1) c] show ?thesis by (simp add: one_per_cell_def)
        qed
      qed
    qed
  qed
  show ?thesis by (intro conjI; fact A B C)
qed

theorem placeOrInteract_guards_witness:
  "distinct_ids leverScene \<and> one_per_cell leverScene
   \<and> getBlockEntity leverScene 1 1 = Some (1, newEntity ''minecraft:lever'' 1 1)
   \<and> map_option cells (placeOrInteract 3 ''minecraft:stone'' 1 1 leverScene) = Some [(1, (1, 1))]
   \<and> map_option one_per_cell (placeOrInteract 3 ''minecraft:stone'' 1 1 leverScene) = Some True
   \<and> placeOrInteract 3 ''minecraft:stone'' 64 0 leverScene = Some leverScene"
proof -
  have h1: "distinct_ids leverScene" by code_simp
  have o: "one_per_cell leverScene" by code_simp
  have g: "getBlockEntity leverScene 1 1 = Some (1, newEntity ''minecraft:lever'' 1 1)" by code_simp
  have ne: "''minecraft:stone'' \<noteq> ''erase''" by simp
  obtain s' where r: "placeOrInteract 3 ''minecraft:stone'' 1 1 leverScene = Some s'"
    by (cases "placeOrInteract 3 ''minecraft:stone'' 1 1 leverScene") (code_simp, blast)
  obtain s2 where r2: "placeOrInteract 3 ''minecraft:stone'' 64 0 leverScene = Some s2"
    by (cases "placeOrInteract 3 ''minecraft:stone'' 64 0 leverScene") (code_simp, blast)
  have w: "width leverScene = 64" by (simp add: leverScene_def)
  have c: "cells leverScene = [(1, (1, 1))]" by code_simp
  from placeOrInteract_guards[OF h1 r] g ne o
  have "cells s' = cells leverScene" "one_per_cell s'" by blast+
  then have a: "map_option cells (placeOrInteract 3 ''minecraft:stone'' 1 1 leverScene) = Some [(1, (1, 1))]"
    and b: "map_option one_per_cell (placeOrInteract 3 ''minecraft:stone'' 1 1 leverScene) = Some True"
    using r c by simp_all
  from placeOrInteract_guards[OF h1 r2] w have "s2 = leverScene" by simp
  with r2 have d: "placeOrInteract 3 ''minecraft:stone'' 64 0 leverScene = Some leverScene" by simp
  from h1 o g a b d show ?thesis by simp
qed

subsection \<open>Piston motion keeps the entities and their logic\<close>

lemma motion_entity_refl: "motion_entity p p"
  by (simp add: motion_entity_def option.rel_refl same_but_level_refl)

lemma motion_entity_trans: "motion_entity p q \<Longrightarrow> motion_entity q r \<Longrightarrow> motion_entity p r"
  unfolding motion_entity_def
  by (cases "redstone (snd p)"; cases "redstone (snd q)"; cases "redstone (snd r)")
     (auto intro: same_but_level_trans)

lemma motion_refl: "motion s s"
  by (simp add: motion_def list_all2_refl motion_entity_refl)

lemma motion_trans:
  assumes "motion a b" "motion b c"
  shows "motion a c"
proof -
  have "list_all2 motion_entity (entities a) (entities c)"
    using assms unfolding motion_def
    by (auto intro: list_all2_trans[where ?P1.0 = motion_entity and ?P2.0 = motion_entity]
                    motion_entity_trans)
  then show ?thesis using assms by (simp add: motion_def)
qed

lemma cascade_motion: "cascade s s' \<Longrightarrow> motion s s'"
proof -
  assume c: "cascade s s'"
  then have "list_all2 cascade_entity (entities s) (entities s')" by (simp add: cascade_def)
  then have "list_all2 motion_entity (entities s) (entities s')"
    by (rule list_all2_mono) (simp add: cascade_entity_def motion_entity_def)
  then show ?thesis using c by (simp add: motion_def cascade_def)
qed

lemma motion_ids: "motion s s' \<Longrightarrow> map fst (entities s') = map fst (entities s)"
proof -
  assume "motion s s'"
  then have "list_all2 motion_entity (entities s) (entities s')" by (simp add: motion_def)
  then show ?thesis
    by (induction rule: list_all2_induct) (auto simp: motion_entity_def)
qed

lemma motion_distinct_ids: "motion s s' \<Longrightarrow> distinct_ids s \<Longrightarrow> distinct_ids s'"
  by (simp add: distinct_ids_def motion_ids)

lemma motion_ids_below:
  assumes "motion s s'" "ids_below s"
  shows "ids_below s'"
proof -
  have "map fst (entities s') = map fst (entities s)" by (rule motion_ids[OF assms(1)])
  moreover have "nextId s' = nextId s" using assms(1) by (simp add: motion_def)
  ultimately show ?thesis using assms(2) by (simp only: ids_below_def)
qed

lemma motion_compOf:
  assumes "motion s s'"
  shows "rel_option same_but_level (compOf s k) (compOf s' k)"
proof -
  have "rel_option (\<lambda>e e'. motion_entity (k, e) (k, e')) (map_of (entities s) k) (map_of (entities s') k)"
    by (rule list_all2_map_of[where R = motion_entity])
       (use assms in \<open>simp_all add: motion_def motion_entity_def\<close>)
  then show ?thesis
    unfolding compOf_def
    by (cases "map_of (entities s) k"; cases "map_of (entities s') k")
       (auto simp: motion_entity_def)
qed

lemma motion_compOf_Some:
  assumes "motion s s'" "compOf s k = Some c"
  obtains c' where "compOf s' k = Some c'" "same_but_level c c'"
  using motion_compOf[OF assms(1), of k] assms(2)
  by (cases "compOf s' k") auto

lemma motion_setPosition: "motion s (setPosition i p s)"
proof -
  have "list_all2 motion_entity (entities s)
          (AList.map_entry i (\<lambda>e. e\<lparr>position := p\<rparr>) (entities s))"
    by (rule list_all2_map_entry)
       (simp_all add: motion_entity_def option.rel_refl same_but_level_refl)
  then show ?thesis by (simp add: motion_def setPosition_def)
qed

lemma motion_moveItem:
  assumes "distinct_ids s" "moveItem n vec item s = Some s'"
  shows "motion s s'"
proof -
  obtain i ix iy where item: "item = (i, ix, iy)" by (cases item)
  let ?a = "setPosition i (ix + fst vec, iy + snd vec) s"
  from assms(2) item obtain s1 where
    n1: "notifyNeighbors n ix iy ?a = Some s1" and
    n2: "notifyNeighbors n (ix + fst vec) (iy + snd vec) s1 = Some s'"
    by (auto simp: moveItem_def split: option.splits bind_splits)
  have da: "distinct_ids ?a" using assms(1) by simp
  have c1: "cascade ?a s1" by (rule cascade_notifyNeighbors[OF da n1])
  have c2: "cascade s1 s'"
    by (rule cascade_notifyNeighbors[OF cascade_distinct_ids[OF c1 da] n2])
  show ?thesis
    by (rule motion_trans[OF motion_setPosition
          motion_trans[OF cascade_motion[OF c1] cascade_motion[OF c2]]])
qed

lemma motion_moveStack:
  "distinct_ids s \<Longrightarrow> moveStack n vec stack s = Some s' \<Longrightarrow> motion s s'"
proof (induction stack arbitrary: s)
  case Nil
  then show ?case by (simp add: motion_refl)
next
  case (Cons item rest)
  from Cons.prems(2) obtain s1 where
    m: "moveItem n vec item s = Some s1" and r: "moveStack n vec rest s1 = Some s'"
    by (auto split: bind_splits)
  have a: "motion s s1" by (rule motion_moveItem[OF Cons.prems(1) m])
  have b: "motion s1 s'"
    by (rule Cons.IH[OF motion_distinct_ids[OF a Cons.prems(1)] r])
  show ?case by (rule motion_trans[OF a b])
qed

lemma motion_doPush: "distinct_ids s \<Longrightarrow> doPush n x y d s = Some s' \<Longrightarrow> motion s s'"
  unfolding doPush_def by (auto split: bind_splits dest: motion_moveStack)

lemma motion_doPull:
  assumes "distinct_ids s" "doPull n x y d s = Some s'"
  shows "motion s s'"
proof -
  obtain vx vy where v: "toVector d = (vx, vy)" by (cases "toVector d")
  show ?thesis
  proof (cases "getBlockEntity s (x + vx * 2) (y + vy * 2)")
    case None
    with assms(2) v show ?thesis by (simp add: doPull_def motion_refl)
  next
    case (Some p)
    obtain i e where p: "p = (i, e)" by (cases p)
    show ?thesis
    proof (cases "immovable (blockState e)")
      case True
      with assms(2) v Some p show ?thesis by (simp add: doPull_def motion_refl)
    next
      case False
      let ?a = "setPosition i (x + vx, y + vy) s"
      from assms(2) v Some p False obtain s1 where
        n1: "notifyNeighbors n (x + vx * 2) (y + vy * 2) ?a = Some s1" and
        n2: "notifyNeighbors n (x + vx) (y + vy) s1 = Some s'"
        by (auto simp: doPull_def split: bind_splits)
      have da: "distinct_ids ?a" using assms(1) by simp
      have c1: "cascade ?a s1" by (rule cascade_notifyNeighbors[OF da n1])
      have c2: "cascade s1 s'"
        by (rule cascade_notifyNeighbors[OF cascade_distinct_ids[OF c1 da] n2])
      show ?thesis
        by (rule motion_trans[OF motion_setPosition
              motion_trans[OF cascade_motion[OF c1] cascade_motion[OF c2]]])
    qed
  qed
qed

subsection \<open>Due entries and the block they find, in a tick\<close>

lemma orphanScene_reachable:
  "run (orphanSchedule @ [tick 20]) (RedstoneSimulator 64 48) = Some orphanScene"
  by code_simp




subsection \<open>When a queued entry fires\<close>

lemma torchThenComparator_reachable:
  "run [placeOrInteract 20 ''minecraft:redstone_torch'' 1 1, tick 20,
        placeOrInteract 20 ''minecraft:comparator'' 1 0] (RedstoneSimulator 64 48)
   = Some torchThenComparator"
  by code_simp

lemma fold_dispatch:
  "fold (\<lambda>t r. Option.bind r (dispatchTick n t)) ts r = Option.bind r (processDue n ts)"
proof (induction ts arbitrary: r)
  case Nil
  show ?case by (cases r) simp_all
next
  case (Cons t ts)
  show ?case by (cases r) (simp_all add: Cons.IH)
qed

lemma processDue_append:
  "processDue n (ts @ us) a = Option.bind (processDue n ts a) (processDue n us)"
proof (induction ts arbitrary: a)
  case Nil
  show ?case by simp
next
  case (Cons t ts)
  show ?case by (cases "dispatchTick n t a") (simp_all add: Cons.IH)
qed

text \<open>
  Claim C7. \<open>scheduleBlockUpdate\<close> with a delay \<open>d \<ge> 0\<close> at clock \<open>t\<close> appends an entry
  due at \<open>t + d\<close>, which is not before \<open>t\<close>; the entry is among the due ones at a clock
  \<open>T\<close> exactly when \<open>t + d \<le> T\<close>. A \<open>tick\<close> advances the clock by one, takes out of the
  queue the entries that are due at the new clock, and dispatches exactly these, each
  once, from the first to the last in their order in the queue: the tick is the
  left-to-right fold of the dispatch of one entry over that list, and the dispatch of an
  entry is the scheduled-tick callback of the block in its cell. While they are
  dispatched the clock stands still and the queue only grows at its end, so what a
  callback enqueues during the tick, also with delay 0, is not in the list this tick
  dispatches and is still queued when it ends: it fires on a later tick, at a greater
  clock.
\<close>

theorem scheduled_entries_fire_on_later_ticks:
  assumes "0 \<le> d"
  shows "nextTickList (scheduleBlockUpdate x y d p s)
           = nextTickList s @ [\<lparr>sx = x, sy = y, time = tickCount s + d, priority = p\<rparr>]
         \<and> tickCount s \<le> time \<lparr>sx = x, sy = y, time = tickCount s + d, priority = p\<rparr>
         \<and> (\<lparr>sx = x, sy = y, time = tickCount s + d, priority = p\<rparr>
               \<in> set (dueTicks ((scheduleBlockUpdate x y d p s)\<lparr>tickCount := T\<rparr>))
              \<longleftrightarrow> tickCount s + d \<le> T)
         \<and> tick n q
           = processDue n (filter (\<lambda>u. time u \<le> tickCount q + 1) (nextTickList q))
               (q\<lparr>tickCount := tickCount q + 1,
                  nextTickList := filter (\<lambda>u. time u > tickCount q + 1) (nextTickList q)\<rparr>)
         \<and> tick n q
           = fold (\<lambda>t r. Option.bind r (dispatchTick n t))
               (filter (\<lambda>u. time u \<le> tickCount q + 1) (nextTickList q))
               (Some (q\<lparr>tickCount := tickCount q + 1,
                        nextTickList := filter (\<lambda>u. time u > tickCount q + 1) (nextTickList q)\<rparr>))
         \<and> (\<forall>a. processDue n [] a = Some a)
         \<and> (\<forall>t ts a. processDue n (t # ts) a = Option.bind (dispatchTick n t a) (processDue n ts))
         \<and> (\<forall>ts us a. processDue n (ts @ us) a = Option.bind (processDue n ts a) (processDue n us))
         \<and> (\<forall>t a. dispatchTick n t a
                   = (case getBlockEntity a (sx t) (sy t) of
                        None \<Rightarrow> Some a
                      | Some (i, e) \<Rightarrow>
                          (case redstone e of
                             None \<Rightarrow> Some a
                           | Some c \<Rightarrow> onScheduledTick n i c (sx t) (sy t) a)))
         \<and> (\<forall>ts a a'. processDue n ts a = Some a' \<longrightarrow>
               tickCount a' = tickCount a \<and> prefix (nextTickList a) (nextTickList a'))
         \<and> (\<forall>q'. tick n q = Some q' \<longrightarrow>
               tickCount q' = tickCount q + 1
               \<and> prefix (filter (\<lambda>u. time u > tickCount q + 1) (nextTickList q)) (nextTickList q'))"
proof -
  let ?E = "\<lparr>sx = x, sy = y, time = tickCount s + d, priority = p\<rparr>"
  let ?q0 = "q\<lparr>tickCount := tickCount q + 1,
                nextTickList := filter (\<lambda>u. time u > tickCount q + 1) (nextTickList q)\<rparr>"
  have a: "nextTickList (scheduleBlockUpdate x y d p s) = nextTickList s @ [?E]" by simp
  have b: "tickCount s \<le> time ?E" using assms by simp
  have c: "?E \<in> set (dueTicks ((scheduleBlockUpdate x y d p s)\<lparr>tickCount := T\<rparr>))
           \<longleftrightarrow> tickCount s + d \<le> T"
    by (auto simp: dueTicks_def)
  have t: "tick n q
           = processDue n (filter (\<lambda>u. time u \<le> tickCount q + 1) (nextTickList q)) ?q0"
    by (simp add: tick_def processScheduledTicks_def dueTicks_def)
  have t2: "tick n q
           = fold (\<lambda>t r. Option.bind r (dispatchTick n t))
               (filter (\<lambda>u. time u \<le> tickCount q + 1) (nextTickList q)) (Some ?q0)"
    by (simp only: t fold_dispatch Option.bind.simps)
  have p0: "\<forall>a. processDue n [] a = Some a" by simp
  have p1: "\<forall>t ts a. processDue n (t # ts) a
              = Option.bind (dispatchTick n t a) (processDue n ts)"
    by simp
  have p2: "\<forall>ts us a. processDue n (ts @ us) a
              = Option.bind (processDue n ts a) (processDue n us)"
    by (simp add: processDue_append)
  have p3: "\<forall>t a. dispatchTick n t a
                   = (case getBlockEntity a (sx t) (sy t) of
                        None \<Rightarrow> Some a
                      | Some (i, e) \<Rightarrow>
                          (case redstone e of
                             None \<Rightarrow> Some a
                           | Some c \<Rightarrow> onScheduledTick n i c (sx t) (sy t) a))"
    by (simp add: dispatchTick_def)
  have e: "\<forall>ts a a'. processDue n ts a = Some a' \<longrightarrow>
               tickCount a' = tickCount a \<and> prefix (nextTickList a) (nextTickList a')"
    using queue_processDue by (auto simp: queue_grows_def)
  have f: "\<forall>q'. tick n q = Some q' \<longrightarrow>
               tickCount q' = tickCount q + 1
               \<and> prefix (filter (\<lambda>u. time u > tickCount q + 1) (nextTickList q)) (nextTickList q')"
  proof (intro allI impI)
    fix q' assume "tick n q = Some q'"
    with t have "queue_grows ?q0 q'"
      using queue_processDue by simp
    then show "tickCount q' = tickCount q + 1
               \<and> prefix (filter (\<lambda>u. time u > tickCount q + 1) (nextTickList q)) (nextTickList q')"
      by (simp add: queue_grows_def)
  qed
  show ?thesis by (intro conjI; fact a b c t t2 p0 p1 p2 p3 e f)
qed

theorem scheduled_entries_fire_on_later_ticks_witness:
  "(0::int) \<le> 0
   \<and> nextTickList (scheduleBlockUpdate 2 0 0 0 comparatorScene)
     = [\<lparr>sx = 1, sy = 0, time = 0, priority = 0\<rparr>, \<lparr>sx = 2, sy = 0, time = 0, priority = 0\<rparr>]
   \<and> \<lparr>sx = 2, sy = 0, time = 0, priority = 0\<rparr>
       \<in> set (dueTicks ((scheduleBlockUpdate 2 0 0 0 comparatorScene)\<lparr>tickCount := 1\<rparr>))
   \<and> tick 2 torchThenComparator
     = fold (\<lambda>t r. Option.bind r (dispatchTick 2 t))
         [\<lparr>sx = 1, sy = 1, time = 2, priority = 0\<rparr>, \<lparr>sx = 1, sy = 0, time = 1, priority = 0\<rparr>]
         (Some (torchThenComparator\<lparr>tickCount := 2, nextTickList := []\<rparr>))
   \<and> map_option tickCount (tick 2 torchThenComparator) = Some 2
   \<and> map_option levels (tick 2 torchThenComparator) = Some [(1, Some 15), (2, Some 15)]
   \<and> map_option outputs (tick 2 torchThenComparator) = Some [(1, Some 0), (2, Some 15)]
   \<and> map_option nextTickList (tick 2 torchThenComparator)
     = Some [\<lparr>sx = 1, sy = 0, time = 2, priority = 0\<rparr>, \<lparr>sx = 1, sy = 1, time = 4, priority = 0\<rparr>]
   \<and> map_option outputs
       (fold (\<lambda>t r. Option.bind r (dispatchTick 2 t))
          [\<lparr>sx = 1, sy = 0, time = 1, priority = 0\<rparr>, \<lparr>sx = 1, sy = 1, time = 2, priority = 0\<rparr>]
          (Some (torchThenComparator\<lparr>tickCount := 2, nextTickList := []\<rparr>)))
     = Some [(1, Some 0), (2, Some 0)]"
proof -
  have h: "(0::int) \<le> 0" by simp
  note t = scheduled_entries_fire_on_later_ticks[OF h, of 2 0 0 comparatorScene 1 2 torchThenComparator]
  have f: "tickCount comparatorScene = 0"
    "nextTickList comparatorScene = [\<lparr>sx = 1, sy = 0, time = 0, priority = 0\<rparr>]"
    by (simp_all add: comparatorScene_def)
  have a: "nextTickList (scheduleBlockUpdate 2 0 0 0 comparatorScene)
     = [\<lparr>sx = 1, sy = 0, time = 0, priority = 0\<rparr>, \<lparr>sx = 2, sy = 0, time = 0, priority = 0\<rparr>]"
    using t[THEN conjunct1] f by simp
  have b: "\<lparr>sx = 2, sy = 0, time = 0, priority = 0\<rparr>
       \<in> set (dueTicks ((scheduleBlockUpdate 2 0 0 0 comparatorScene)\<lparr>tickCount := 1\<rparr>))"
    using t[THEN conjunct2, THEN conjunct2, THEN conjunct1] f by simp
  have g: "filter (\<lambda>u. time u \<le> tickCount torchThenComparator + 1) (nextTickList torchThenComparator)
           = [\<lparr>sx = 1, sy = 1, time = 2, priority = 0\<rparr>, \<lparr>sx = 1, sy = 0, time = 1, priority = 0\<rparr>]"
    "torchThenComparator\<lparr>tickCount := tickCount torchThenComparator + 1,
        nextTickList := filter (\<lambda>u. time u > tickCount torchThenComparator + 1)
                          (nextTickList torchThenComparator)\<rparr>
     = torchThenComparator\<lparr>tickCount := 2, nextTickList := []\<rparr>"
    by (simp_all add: torchThenComparator_def)
  have "tick 2 torchThenComparator
     = fold (\<lambda>t r. Option.bind r (dispatchTick 2 t))
         (filter (\<lambda>u. time u \<le> tickCount torchThenComparator + 1) (nextTickList torchThenComparator))
         (Some (torchThenComparator\<lparr>tickCount := tickCount torchThenComparator + 1,
                  nextTickList := filter (\<lambda>u. time u > tickCount torchThenComparator + 1)
                                    (nextTickList torchThenComparator)\<rparr>))"
    by (rule t[THEN conjunct2, THEN conjunct2, THEN conjunct2, THEN conjunct2, THEN conjunct1])
  then have c: "tick 2 torchThenComparator
     = fold (\<lambda>t r. Option.bind r (dispatchTick 2 t))
         [\<lparr>sx = 1, sy = 1, time = 2, priority = 0\<rparr>, \<lparr>sx = 1, sy = 0, time = 1, priority = 0\<rparr>]
         (Some (torchThenComparator\<lparr>tickCount := 2, nextTickList := []\<rparr>))"
    by (simp only: g)
  have v: "map_option tickCount (fold (\<lambda>t r. Option.bind r (dispatchTick 2 t))
         [\<lparr>sx = 1, sy = 1, time = 2, priority = 0\<rparr>, \<lparr>sx = 1, sy = 0, time = 1, priority = 0\<rparr>]
         (Some (torchThenComparator\<lparr>tickCount := 2, nextTickList := []\<rparr>))) = Some 2"
    "map_option levels (fold (\<lambda>t r. Option.bind r (dispatchTick 2 t))
         [\<lparr>sx = 1, sy = 1, time = 2, priority = 0\<rparr>, \<lparr>sx = 1, sy = 0, time = 1, priority = 0\<rparr>]
         (Some (torchThenComparator\<lparr>tickCount := 2, nextTickList := []\<rparr>)))
       = Some [(1, Some 15), (2, Some 15)]"
    "map_option outputs (fold (\<lambda>t r. Option.bind r (dispatchTick 2 t))
         [\<lparr>sx = 1, sy = 1, time = 2, priority = 0\<rparr>, \<lparr>sx = 1, sy = 0, time = 1, priority = 0\<rparr>]
         (Some (torchThenComparator\<lparr>tickCount := 2, nextTickList := []\<rparr>)))
       = Some [(1, Some 0), (2, Some 15)]"
    "map_option nextTickList (fold (\<lambda>t r. Option.bind r (dispatchTick 2 t))
         [\<lparr>sx = 1, sy = 1, time = 2, priority = 0\<rparr>, \<lparr>sx = 1, sy = 0, time = 1, priority = 0\<rparr>]
         (Some (torchThenComparator\<lparr>tickCount := 2, nextTickList := []\<rparr>)))
       = Some [\<lparr>sx = 1, sy = 0, time = 2, priority = 0\<rparr>, \<lparr>sx = 1, sy = 1, time = 4, priority = 0\<rparr>]"
    by code_simp+
  have w: "map_option outputs
       (fold (\<lambda>t r. Option.bind r (dispatchTick 2 t))
          [\<lparr>sx = 1, sy = 0, time = 1, priority = 0\<rparr>, \<lparr>sx = 1, sy = 1, time = 2, priority = 0\<rparr>]
          (Some (torchThenComparator\<lparr>tickCount := 2, nextTickList := []\<rparr>)))
     = Some [(1, Some 0), (2, Some 0)]"
    by code_simp
  show ?thesis
    using h a b c v[folded c] w by (intro conjI) assumption+
qed

subsection \<open>Counting the unsettled wires\<close>

lemma count_map_filter:
  "distinct xs \<Longrightarrow> count (mset (List.map_filter f xs)) k = card {x \<in> set xs. f x = Some k}"
proof (induction xs)
  case Nil
  then show ?case by (simp add: map_filter_simps)
next
  case (Cons a xs)
  have fin: "finite {x \<in> set xs. f x = Some k}" by simp
  have out: "a \<notin> {x \<in> set xs. f x = Some k}" using Cons.prems by simp
  have ih: "count (mset (List.map_filter f xs)) k = card {x \<in> set xs. f x = Some k}"
    using Cons by simp
  show ?case
  proof (cases "f a = Some k")
    case True
    then have "{x \<in> set (a # xs). f x = Some k} = insert a {x \<in> set xs. f x = Some k}"
      by auto
    then show ?thesis using True ih fin out by (simp add: map_filter_simps)
  next
    case False
    then have "{x \<in> set (a # xs). f x = Some k} = {x \<in> set xs. f x = Some k}"
      by auto
    then show ?thesis using False ih by (cases "f a") (simp_all add: map_filter_simps)
  qed
qed

lemma count_backlog:
  "count (backlog s) k = card {p \<in> set (occupied s). unsettled s p = Some k}"
  by (simp add: backlog_def occupied_def count_map_filter)

lemma backlog_less:
  assumes occ: "occupied s' = occupied s"
    and keep: "\<And>p k. K \<le> k \<Longrightarrow> unsettled s' p = Some k \<Longrightarrow> unsettled s p = Some k"
    and q: "q \<in> set (occupied s)" "unsettled s q = Some K" "unsettled s' q \<noteq> Some K"
  shows "backlog s' < backlog s"
proof -
  have le: "count (backlog s') k \<le> count (backlog s) k" if "K \<le> k" for k
  proof -
    have "{p \<in> set (occupied s). unsettled s' p = Some k}
          \<subseteq> {p \<in> set (occupied s). unsettled s p = Some k}"
      using keep[OF that] by auto
    then have "card {p \<in> set (occupied s). unsettled s' p = Some k}
               \<le> card {p \<in> set (occupied s). unsettled s p = Some k}"
      by (intro card_mono) simp_all
    then show ?thesis by (simp add: count_backlog occ)
  qed
  have lt: "count (backlog s') K < count (backlog s) K"
  proof -
    have "{p \<in> set (occupied s). unsettled s' p = Some K}
          \<subset> {p \<in> set (occupied s). unsettled s p = Some K}"
      using keep[of K] q by auto
    then have "card {p \<in> set (occupied s). unsettled s' p = Some K}
               < card {p \<in> set (occupied s). unsettled s p = Some K}"
      by (intro psubset_card_mono) simp_all
    then show ?thesis by (simp add: count_backlog occ)
  qed
  show ?thesis
    unfolding less_multiset\<^sub>H\<^sub>O
  proof (intro conjI allI impI)
    show "backlog s' \<noteq> backlog s" using lt by auto
  next
    fix y assume "count (backlog s) y < count (backlog s') y"
    then have "y < K" using le[of y] by (cases "K \<le> y") auto
    with lt show "\<exists>x>y. count (backlog s') x < count (backlog s) x" by blast
  qed
qed

lemma wireAt_occupied:
  assumes "wireAt s x y = Some l"
  shows "(x, y) \<in> set (occupied s)"
proof -
  from assms obtain i e where g: "getBlockEntity s x y = Some (i, e)"
    by (auto simp: wireAt_def split: option.splits)
  from getBlockEntity_SomeD[OF g] have "(i, (x, y)) \<in> set (cells s)"
    by (force simp: cells_def)
  then have "(x, y) \<in> snd ` set (cells s)" by force
  then show ?thesis by (simp add: occupied_def)
qed

lemma unsettled_occupied: "unsettled s p = Some k \<Longrightarrow> p \<in> set (occupied s)"
  using wireAt_occupied[of s "fst p" "snd p"]
  by (auto simp: unsettled_def split: option.splits)

subsection \<open>What a wire reads from its neighbors\<close>

lemma neighborContribution_total: "\<exists>k. neighborContribution s x y d = Some k"
proof (cases "getBlockEntity s (x + fst (toVector d)) (y + snd (toVector d))")
  case None
  then show ?thesis by (simp add: neighborContribution_def)
next
  case (Some p)
  obtain i e where p: "p = (i, e)" by (cases p)
  show ?thesis
  proof (cases "redstone e")
    case None
    then show ?thesis using Some p by (simp add: neighborContribution_def)
  next
    case r: (Some r)
    obtain q where "getPowerOutput s (x + fst (toVector d)) (y + snd (toVector d)) (opposite d) r = Some q"
      using getPowerOutput_total Some p by blast
    then show ?thesis using Some p r by (simp add: neighborContribution_def)
  qed
qed

lemma neighborContribution_wireAt:
  assumes "wireAt s (x + fst (toVector d)) (y + snd (toVector d)) = Some l"
  shows "neighborContribution s x y d = Some (max 0 (l - 1))"
  using assms by (auto simp: neighborContribution_def wireAt_def split: option.splits if_splits)

lemma neighborContribution_nonneg:
  assumes "neighborContribution s x y d = Some k" "wireAt s (x + fst (toVector d)) (y + snd (toVector d)) \<noteq> None"
  shows "0 \<le> k"
  using assms neighborContribution_wireAt[of s x d y] by auto

lemma cascade_rotationAt:
  assumes "cascade s s'"
  shows "rotationAt s' x y = rotationAt s x y"
proof -
  have r: "rel_option cascade_entity (getBlockEntity s x y) (getBlockEntity s' x y)"
    by (rule cascade_getBlockEntity[OF assms])
  show ?thesis
  proof (cases "getBlockEntity s x y")
    case None
    with r show ?thesis by (simp add: rotationAt_def)
  next
    case (Some p)
    with r obtain q where q: "getBlockEntity s' x y = Some q" "cascade_entity p q"
      by (cases "getBlockEntity s' x y") auto
    from q(2) have "(blockState (snd q))\<lparr>bs_powerLevel := bs_powerLevel (blockState (snd p))\<rparr>
                    = blockState (snd p)"
      by (simp add: cascade_entity_def)
    from arg_cong[OF this, of bs_rotation]
    have "bs_rotation (blockState (snd q)) = bs_rotation (blockState (snd p))" by simp
    then show ?thesis using Some q(1) by (simp add: rotationAt_def split_beta)
  qed
qed

lemma cascade_getPowerOutput:
  assumes "cascade s s'" "same_but_level c c'" "cls c \<noteq> RedstoneDustComponent"
  shows "getPowerOutput s' x y d c' = getPowerOutput s x y d c"
proof -
  note f = same_but_levelD(1,5)[OF assms(2)] same_but_levelD(10)[OF assms(2,3)]
  show ?thesis
    using assms(3) f
    by (cases "cls c"; cases "rotationAt s x y";
        simp add: getPowerOutput_def cascade_rotationAt[OF assms(1)])
qed

lemma cascade_wireAt:
  assumes "cascade s s'"
  shows "(wireAt s' x y = None) = (wireAt s x y = None)"
proof -
  have r: "rel_option cascade_entity (getBlockEntity s x y) (getBlockEntity s' x y)"
    by (rule cascade_getBlockEntity[OF assms])
  show ?thesis
  proof (cases "getBlockEntity s x y")
    case None
    with r show ?thesis by (simp add: wireAt_def)
  next
    case (Some p)
    with r obtain q where q: "getBlockEntity s' x y = Some q" "cascade_entity p q"
      by (cases "getBlockEntity s' x y") auto
    from q(2) have ro: "rel_option same_but_level (redstone (snd p)) (redstone (snd q))"
      by (simp add: cascade_entity_def)
    show ?thesis
    proof (cases "redstone (snd p)")
      case None
      with ro have "redstone (snd q) = None" by (cases "redstone (snd q)") auto
      with None Some q(1) show ?thesis by (simp add: wireAt_def split_beta)
    next
      case c: (Some c)
      with ro obtain c' where c': "redstone (snd q) = Some c'" "same_but_level c c'"
        by (cases "redstone (snd q)") auto
      from same_but_levelD(1)[OF c'(2)] show ?thesis
        using Some q(1) c c'(1) by (simp add: wireAt_def split_beta)
    qed
  qed
qed

lemma cascade_neighborContribution:
  assumes "cascade s s'" "wireAt s (x + fst (toVector d)) (y + snd (toVector d)) = None"
  shows "neighborContribution s' x y d = neighborContribution s x y d"
proof -
  let ?nx = "x + fst (toVector d)" and ?ny = "y + snd (toVector d)"
  have r: "rel_option cascade_entity (getBlockEntity s ?nx ?ny) (getBlockEntity s' ?nx ?ny)"
    by (rule cascade_getBlockEntity[OF assms(1)])
  show ?thesis
  proof (cases "getBlockEntity s ?nx ?ny")
    case None
    with r show ?thesis by (simp add: neighborContribution_def)
  next
    case (Some p)
    with r obtain q where q: "getBlockEntity s' ?nx ?ny = Some q" "cascade_entity p q"
      by (cases "getBlockEntity s' ?nx ?ny") auto
    from q(2) have ro: "rel_option same_but_level (redstone (snd p)) (redstone (snd q))"
      by (simp add: cascade_entity_def)
    show ?thesis
    proof (cases "redstone (snd p)")
      case None
      with ro have "redstone (snd q) = None" by (cases "redstone (snd q)") auto
      with None Some q(1) show ?thesis by (simp add: neighborContribution_def split_beta)
    next
      case c: (Some c)
      with ro obtain c' where c': "redstone (snd q) = Some c'" "same_but_level c c'"
        by (cases "redstone (snd q)") auto
      have nd: "cls c \<noteq> RedstoneDustComponent"
        using assms(2) Some c by (auto simp: wireAt_def split_beta split: if_splits)
      then have nd': "cls c' \<noteq> RedstoneDustComponent"
        using same_but_levelD(1)[OF c'(2)] by simp
      have "getPowerOutput s' ?nx ?ny (opposite d) c' = getPowerOutput s ?nx ?ny (opposite d) c"
        by (rule cascade_getPowerOutput[OF assms(1) c'(2) nd])
      then show ?thesis
        using Some q(1) c c'(1) nd nd' by (simp add: neighborContribution_def split_beta)
    qed
  qed
qed

text \<open>A cascade step that changes no wire's level changes no wire's demand either.\<close>

lemma quiet_neighborContribution:
  assumes "cascade s s'" "\<And>px py. wireAt s' px py = wireAt s px py"
  shows "neighborContribution s' x y d = neighborContribution s x y d"
proof (cases "wireAt s (x + fst (toVector d)) (y + snd (toVector d))")
  case None
  then show ?thesis by (rule cascade_neighborContribution[OF assms(1)])
next
  case (Some l)
  then show ?thesis
    using neighborContribution_wireAt[of s x d y l] neighborContribution_wireAt[of s' x d y l]
    by (simp add: assms(2))
qed

lemma quiet_wireLevel:
  assumes "cascade s s'" "\<And>px py. wireAt s' px py = wireAt s px py"
  shows "wireLevel s' x y = wireLevel s x y"
  by (simp only: wireLevel_def quiet_neighborContribution[OF assms])

lemma quiet_unsettled:
  assumes "cascade s s'" "\<And>px py. wireAt s' px py = wireAt s px py"
  shows "unsettled s' p = unsettled s p"
  by (simp only: unsettled_def assms(2) quiet_wireLevel[OF assms])

lemma quiet_backlog:
  assumes "cascade s s'" "\<And>px py. wireAt s' px py = wireAt s px py"
  shows "backlog s' = backlog s"
proof -
  have "unsettled s' = unsettled s" using quiet_unsettled[OF assms] by (intro ext)
  then show ?thesis by (simp add: backlog_def occupied_def cascade_cells[OF assms(1)])
qed


subsection \<open>One assignment of a wire\<close>

lemma redstone_updateBlockState:
  assumes "distinct_ids t"
  shows "map_option (\<lambda>(j, e'). (j, redstone e')) (getBlockEntity (updateBlockState x y f t) px py)
         = map_option (\<lambda>(j, e'). (j, redstone e')) (getBlockEntity t px py)"
proof (cases "getBlockEntity t x y")
  case None
  then show ?thesis by (simp add: updateBlockState_def)
next
  case (Some p)
  obtain k v where p: "p = (k, v)" by (cases p)
  show ?thesis
    using Some p
    by (cases "getBlockEntity t px py")
       (auto simp: updateBlockState_def getBlockEntity_setBlockState[OF assms])
qed

lemma wireAt_dustAssign:
  assumes "distinct_ids s" "getBlockEntity s x y = Some (i, e)" "redstone e = Some c"
    "cls c = RedstoneDustComponent"
  shows "wireAt (dustAssign i x y m s) px py = (if (px, py) = (x, y) then Some m else wireAt s px py)"
proof -
  let ?g = "\<lambda>r. r\<lparr>powerLevel := m\<rparr>"
  let ?t = "setThis i ?g s"
  let ?a = "dustAssign i x y m s"
  have dt: "distinct_ids ?t" using assms(1) by simp
  have w: "wireAt ?a px py
           = (case map_option (\<lambda>(j, e'). (j, redstone e')) (getBlockEntity ?a px py) of
                None \<Rightarrow> None
              | Some (j, r) \<Rightarrow>
                  (case r of None \<Rightarrow> None
                   | Some c \<Rightarrow> if cls c = RedstoneDustComponent then Some (powerLevel c) else None))"
    by (simp add: wireAt_def split: option.splits)
  have a: "map_option (\<lambda>(j, e'). (j, redstone e')) (getBlockEntity ?a px py)
           = map_option (\<lambda>(j, e'). (j, redstone e')) (getBlockEntity ?t px py)"
    unfolding dustAssign_def by (rule redstone_updateBlockState[OF dt])
  show ?thesis
  proof (cases "getBlockEntity s px py")
    case None
    then have ne: "(px, py) \<noteq> (x, y)" using assms(2) by auto
    have "wireAt ?a px py = None"
      using None by (simp add: w a getBlockEntity_setThis[OF assms(1)])
    moreover have "wireAt s px py = None" using None by (simp add: wireAt_def)
    ultimately show ?thesis using ne by (simp only: if_False)
  next
    case (Some p)
    obtain j e' where p: "p = (j, e')" by (cases p)
    show ?thesis
    proof (cases "(px, py) = (x, y)")
      case True
      then have "j = i" "e' = e" using Some p assms(2) by auto
      then have "wireAt ?a px py = Some m"
        using Some p assms(3,4) by (simp add: w a getBlockEntity_setThis[OF assms(1)])
      then show ?thesis using True by simp
    next
      case False
      have "j \<noteq> i"
      proof
        assume "j = i"
        then have "map_of (entities s) i = Some e'"
          using map_of_entity[OF assms(1), of px py j e'] Some p by simp
        moreover have "map_of (entities s) i = Some e"
          by (rule map_of_entity[OF assms(1,2)])
        ultimately have "e' = e" by simp
        moreover have "position e' = (px, py)"
          using getBlockEntity_SomeD(2)[of s px py j e'] Some p by simp
        moreover have "position e = (x, y)" by (rule getBlockEntity_SomeD(2)[OF assms(2)])
        ultimately show False using False by simp
      qed
      then have "wireAt ?a px py
                 = (case redstone e' of None \<Rightarrow> None
                    | Some c \<Rightarrow> if cls c = RedstoneDustComponent then Some (powerLevel c) else None)"
        using Some p by (simp add: w a getBlockEntity_setThis[OF assms(1)])
      moreover have "wireAt s px py
                 = (case redstone e' of None \<Rightarrow> None
                    | Some c \<Rightarrow> if cls c = RedstoneDustComponent then Some (powerLevel c) else None)"
        using Some p by (simp add: wireAt_def)
      ultimately show ?thesis using False by (simp only: if_False)
    qed
  qed
qed

lemma wireLevel_nonneg: "wireLevel s x y = Some m \<Longrightarrow> 0 \<le> m"
  by (auto simp: wireLevel_def split: bind_splits)

lemma rank_kept:
  fixes F F' l m lw :: int
  assumes "F' \<le> max F (max 0 (m - 1))" "F \<le> max F' (max 0 (l - 1))" "0 \<le> F" "0 \<le> F'"
    "0 \<le> m" "lw \<noteq> F'" "nat (max l m) \<le> nat (max lw F')"
  shows "lw \<noteq> F \<and> nat (max lw F) = nat (max lw F')"
proof -
  have "0 \<le> max lw F'" using assms(4) by (simp add: le_max_iff_disj)
  then have lm: "max l m \<le> max lw F'"
    using assms(7) nat_le_eq_zle[of "max l m" "max lw F'"] by simp
  consider (above) "F' < lw" | (below) "lw < F'" using assms(6) by linarith
  then show ?thesis
  proof cases
    case above
    then have "max lw F' = lw" by simp
    with lm have "l \<le> lw" by simp
    have "max 0 (l - 1) < lw" using \<open>l \<le> lw\<close> above assms(4) by simp
    with above have "max F' (max 0 (l - 1)) < lw" by simp
    with assms(2) have "F < lw" by linarith
    with above show ?thesis by simp
  next
    case below
    then have "max lw F' = F'" by simp
    with lm have l: "l \<le> F'" and m: "m \<le> F'" by simp_all
    have "F' \<le> F"
    proof (rule ccontr)
      assume "\<not> F' \<le> F"
      with assms(1) have "F' \<le> max 0 (m - 1)" by (simp add: le_max_iff_disj)
      moreover have "0 < F'" using \<open>\<not> F' \<le> F\<close> assms(3) by linarith
      ultimately have "F' \<le> m - 1" by (simp add: le_max_iff_disj)
      with m show False by linarith
    qed
    moreover have "max 0 (l - 1) \<le> F'" using l assms(4) by simp
    then have "max F' (max 0 (l - 1)) = F'" by simp
    with assms(2) have "F \<le> F'" by simp
    ultimately have "F = F'" by simp
    with assms(6) show ?thesis by simp
  qed
qed

lemma Max_five: "Max {0::int, c0, c1, c2, c3} = max (max (max (max 0 c0) c1) c2) c3"
  by (simp add: max_def)

lemma demand_bound:
  fixes t :: int
  assumes "a0 \<le> max b0 t" "a1 \<le> max b1 t" "a2 \<le> max b2 t" "a3 \<le> max b3 t" "0 \<le> t"
  shows "Max {0, a0, a1, a2, a3} \<le> max (Max {0, b0, b1, b2, b3}) t"
proof -
  define B where "B = max (max (max (max 0 b0) b1) b2) b3"
  have b: "0 \<le> B" "b0 \<le> B" "b1 \<le> B" "b2 \<le> B" "b3 \<le> B"
    by (simp_all add: B_def le_max_iff_disj)
  have z: "0 \<le> max B t" using b(1) by (simp add: le_max_iff_disj)
  have a0: "a0 \<le> max B t" using assms(1) b(2) unfolding le_max_iff_disj by auto
  have a1: "a1 \<le> max B t" using assms(2) b(3) unfolding le_max_iff_disj by auto
  have a2: "a2 \<le> max B t" using assms(3) b(4) unfolding le_max_iff_disj by auto
  have a3: "a3 \<le> max B t" using assms(4) b(5) unfolding le_max_iff_disj by auto
  have "max (max (max (max 0 a0) a1) a2) a3 \<le> max B t"
    by (intro max.boundedI z a0 a1 a2 a3)
  then show ?thesis by (simp only: Max_five B_def)
qed

text \<open>
  The wire at \<open>(x, y)\<close> takes the level \<open>m\<close> its neighbors ask for. A neighbor in whose
  direction \<open>d\<close> the wire lies reads its new level; every other reading is as before.
\<close>

lemma neighborContribution_dustAssign:
  assumes "distinct_ids s" "getBlockEntity s x y = Some (i, e)" "redstone e = Some c"
    "cls c = RedstoneDustComponent"
  shows "(px + fst (toVector d), py + snd (toVector d)) \<noteq> (x, y)
         \<Longrightarrow> neighborContribution (dustAssign i x y m s) px py d = neighborContribution s px py d"
    and "(px + fst (toVector d), py + snd (toVector d)) = (x, y)
         \<Longrightarrow> neighborContribution (dustAssign i x y m s) px py d = Some (max 0 (m - 1))
             \<and> neighborContribution s px py d = Some (max 0 (powerLevel c - 1))"
proof -
  let ?a = "dustAssign i x y m s"
  let ?nx = "px + fst (toVector d)" and ?ny = "py + snd (toVector d)"
  have cas: "cascade s ?a"
    by (rule cascade_dustAssign[OF assms(1) getBlockEntity_SomeD(1)[OF assms(2)] assms(3,4)])
  note wa = wireAt_dustAssign[OF assms]
  have ws: "wireAt s x y = Some (powerLevel c)"
    using assms(2,3,4) by (simp add: wireAt_def)
  show "neighborContribution ?a px py d = neighborContribution s px py d"
    if ne: "(?nx, ?ny) \<noteq> (x, y)"
  proof (cases "wireAt s ?nx ?ny")
    case None
    then show ?thesis by (rule cascade_neighborContribution[OF cas])
  next
    case (Some lq)
    then have "wireAt ?a ?nx ?ny = Some lq" using ne by (simp only: wa if_False)
    from neighborContribution_wireAt[OF this] neighborContribution_wireAt[OF Some]
    show ?thesis by simp
  qed
  show "neighborContribution ?a px py d = Some (max 0 (m - 1))
        \<and> neighborContribution s px py d = Some (max 0 (powerLevel c - 1))"
    if eq: "(?nx, ?ny) = (x, y)"
  proof -
    have "wireAt ?a ?nx ?ny = Some m" using eq by (simp add: wa)
    moreover have "wireAt s ?nx ?ny = Some (powerLevel c)" using eq ws by simp
    ultimately show ?thesis
      using neighborContribution_wireAt[of ?a px d py m]
            neighborContribution_wireAt[of s px d py "powerLevel c"]
      by simp
  qed
qed

lemma neighborContribution_dustAssign_bounds:
  assumes "distinct_ids s" "getBlockEntity s x y = Some (i, e)" "redstone e = Some c"
    "cls c = RedstoneDustComponent"
  shows "\<exists>k k'. neighborContribution s px py d = Some k
           \<and> neighborContribution (dustAssign i x y m s) px py d = Some k'
           \<and> k' \<le> max k (max 0 (m - 1)) \<and> k \<le> max k' (max 0 (powerLevel c - 1))
           \<and> ((px + fst (toVector d), py + snd (toVector d)) \<noteq> (x, y) \<longrightarrow> k' = k)"
proof (cases "(px + fst (toVector d), py + snd (toVector d)) = (x, y)")
  case True
  from neighborContribution_dustAssign(2)[OF assms True, of m]
  show ?thesis
    using True
    by (intro exI[of _ "max 0 (powerLevel c - 1)"] exI[of _ "max 0 (m - 1)"]) simp
next
  case False
  obtain k where k: "neighborContribution s px py d = Some k"
    using neighborContribution_total by blast
  from neighborContribution_dustAssign(1)[OF assms False, of m] k
  show ?thesis by (intro exI[of _ k]) simp
qed

lemma wireLevel_dustAssign:
  assumes "distinct_ids s" "getBlockEntity s x y = Some (i, e)" "redstone e = Some c"
    "cls c = RedstoneDustComponent" "0 \<le> m"
  shows "\<exists>F F'. wireLevel s px py = Some F \<and> wireLevel (dustAssign i x y m s) px py = Some F'
           \<and> F' \<le> max F (max 0 (m - 1)) \<and> F \<le> max F' (max 0 (powerLevel c - 1))
           \<and> ((\<forall>d \<in> {0, 1, 2, 3}. (px + fst (toVector d), py + snd (toVector d)) \<noteq> (x, y))
                \<longrightarrow> F' = F)"
proof -
  note a4 = assms(1-4)
  obtain c0 c0' where c0: "neighborContribution s px py 0 = Some c0"
      "neighborContribution (dustAssign i x y m s) px py 0 = Some c0'"
      "c0' \<le> max c0 (max 0 (m - 1))" "c0 \<le> max c0' (max 0 (powerLevel c - 1))"
      "(px + fst (toVector 0), py + snd (toVector 0)) \<noteq> (x, y) \<longrightarrow> c0' = c0"
    using neighborContribution_dustAssign_bounds[OF a4, where px = px and py = py and d = 0 and m = m]
    by (elim exE conjE)
  obtain c1 c1' where c1: "neighborContribution s px py 1 = Some c1"
      "neighborContribution (dustAssign i x y m s) px py 1 = Some c1'"
      "c1' \<le> max c1 (max 0 (m - 1))" "c1 \<le> max c1' (max 0 (powerLevel c - 1))"
      "(px + fst (toVector 1), py + snd (toVector 1)) \<noteq> (x, y) \<longrightarrow> c1' = c1"
    using neighborContribution_dustAssign_bounds[OF a4, where px = px and py = py and d = 1 and m = m]
    by (elim exE conjE)
  obtain c2 c2' where c2: "neighborContribution s px py 2 = Some c2"
      "neighborContribution (dustAssign i x y m s) px py 2 = Some c2'"
      "c2' \<le> max c2 (max 0 (m - 1))" "c2 \<le> max c2' (max 0 (powerLevel c - 1))"
      "(px + fst (toVector 2), py + snd (toVector 2)) \<noteq> (x, y) \<longrightarrow> c2' = c2"
    using neighborContribution_dustAssign_bounds[OF a4, where px = px and py = py and d = 2 and m = m]
    by (elim exE conjE)
  obtain c3 c3' where c3: "neighborContribution s px py 3 = Some c3"
      "neighborContribution (dustAssign i x y m s) px py 3 = Some c3'"
      "c3' \<le> max c3 (max 0 (m - 1))" "c3 \<le> max c3' (max 0 (powerLevel c - 1))"
      "(px + fst (toVector 3), py + snd (toVector 3)) \<noteq> (x, y) \<longrightarrow> c3' = c3"
    using neighborContribution_dustAssign_bounds[OF a4, where px = px and py = py and d = 3 and m = m]
    by (elim exE conjE)
  have F: "wireLevel s px py = Some (Max {0, c0, c1, c2, c3})"
    by (simp add: wireLevel_def c0(1) c1(1) c2(1) c3(1))
  have F': "wireLevel (dustAssign i x y m s) px py = Some (Max {0, c0', c1', c2', c3'})"
    by (simp add: wireLevel_def c0(2) c1(2) c2(2) c3(2))
  have b1: "Max {0, c0', c1', c2', c3'} \<le> max (Max {0, c0, c1, c2, c3}) (max 0 (m - 1))"
    by (rule demand_bound[OF c0(3) c1(3) c2(3) c3(3)]) simp
  have b2: "Max {0, c0, c1, c2, c3} \<le> max (Max {0, c0', c1', c2', c3'}) (max 0 (powerLevel c - 1))"
    by (rule demand_bound[OF c0(4) c1(4) c2(4) c3(4)]) simp
  have b3: "(\<forall>d \<in> {0, 1, 2, 3}. (px + fst (toVector d), py + snd (toVector d)) \<noteq> (x, y))
            \<longrightarrow> Max {0, c0', c1', c2', c3'} = Max {0, c0, c1, c2, c3}"
  proof
    assume "\<forall>d \<in> {0, 1, 2, 3}. (px + fst (toVector d), py + snd (toVector d)) \<noteq> (x, y)"
    then have "c0' = c0" "c1' = c1" "c2' = c2" "c3' = c3"
      using c0(5) c1(5) c2(5) c3(5) by blast+
    then show "Max {0, c0', c1', c2', c3'} = Max {0, c0, c1, c2, c3}" by (simp only:)
  qed
  show ?thesis
    by (rule exI[of _ "Max {0, c0, c1, c2, c3}"], rule exI[of _ "Max {0, c0', c1', c2', c3'}"])
       (intro conjI; fact F F' b1 b2 b3)
qed

lemma backlog_dustAssign:
  assumes "distinct_ids s" "getBlockEntity s x y = Some (i, e)" "redstone e = Some c"
    "cls c = RedstoneDustComponent" "wireLevel s x y = Some m" "powerLevel c \<noteq> m"
  shows "backlog (dustAssign i x y m s) < backlog s"
proof (rule backlog_less[where K = "nat (max (powerLevel c) m)" and q = "(x, y)"])
  let ?a = "dustAssign i x y m s"
  note a4 = assms(1-4)
  have cas: "cascade s ?a"
    by (rule cascade_dustAssign[OF assms(1) getBlockEntity_SomeD(1)[OF assms(2)] assms(3,4)])
  note wa = wireAt_dustAssign[OF a4]
  have ws: "wireAt s x y = Some (powerLevel c)"
    using assms(2,3,4) by (simp add: wireAt_def)
  have m0: "0 \<le> m" by (rule wireLevel_nonneg[OF assms(5)])
  have self: "wireLevel ?a x y = Some m"
  proof -
    obtain F F' where f: "wireLevel s x y = Some F" "wireLevel ?a x y = Some F'"
      "(\<forall>d \<in> {0, 1, 2, 3}. (x + fst (toVector d), y + snd (toVector d)) \<noteq> (x, y)) \<longrightarrow> F' = F"
      using wireLevel_dustAssign[OF a4 m0, where px = x and py = y] by (elim exE conjE)
    have "\<forall>d \<in> {0, 1, 2, 3}. (x + fst (toVector d), y + snd (toVector d)) \<noteq> (x, y)"
      by (simp add: toVector_def)
    with f(3) have "F' = F" by (rule mp)
    with f(1,2) assms(5) show ?thesis by simp
  qed
  show "occupied ?a = occupied s" by (simp add: occupied_def cascade_cells[OF cas])
  show "(x, y) \<in> set (occupied s)" by (rule wireAt_occupied[OF ws])
  show "unsettled s (x, y) = Some (nat (max (powerLevel c) m))"
    using ws assms(5,6) by (simp add: unsettled_def)
  show "unsettled ?a (x, y) \<noteq> Some (nat (max (powerLevel c) m))"
    using self by (simp add: unsettled_def wa)
  fix p k
  assume k: "nat (max (powerLevel c) m) \<le> k" and u: "unsettled ?a p = Some k"
  obtain px py where p: "p = (px, py)" by (cases p)
  have ne: "(px, py) \<noteq> (x, y)"
  proof
    assume "(px, py) = (x, y)"
    then show False using u p self by (simp add: unsettled_def wa)
  qed
  obtain F F' where f: "wireLevel s px py = Some F" "wireLevel ?a px py = Some F'"
    "F' \<le> max F (max 0 (m - 1))" "F \<le> max F' (max 0 (powerLevel c - 1))"
    using wireLevel_dustAssign[OF a4 m0, where px = px and py = py] by (elim exE conjE)
  have wp: "wireAt ?a px py = wireAt s px py" using ne by (simp only: wa if_False)
  from u p f(2) wp obtain lw where lw: "wireAt s px py = Some lw" "lw \<noteq> F'"
    "k = nat (max lw F')"
    by (auto simp: unsettled_def split: option.splits if_splits)
  have "lw \<noteq> F \<and> nat (max lw F) = nat (max lw F')"
    by (rule rank_kept[OF f(3,4) wireLevel_nonneg[OF f(1)] wireLevel_nonneg[OF f(2)] m0 lw(2)])
       (use k lw(3) in simp)
  then show "unsettled s p = Some k"
    using p lw f(1) by (simp add: unsettled_def)
qed


subsection \<open>A deeper stack bound returns the same state\<close>

lemma onNeighborUpdate_body_mono:
  assumes "\<And>a b t t'. notify a b t = Some t' \<Longrightarrow> notify' a b t = Some t'"
    and "onNeighborUpdate_body notify me c x y fx fy s = Some s'"
  shows "onNeighborUpdate_body notify' me c x y fx fy s = Some s'"
proof (cases "cls c = RedstoneDustComponent")
  case True
  from assms(2) True obtain m where m: "dustMaxPower s x y = Some m"
    and r: "(if powerLevel c \<noteq> m then notify x y (dustAssign me x y m s) else Some s) = Some s'"
    by (auto simp: onNeighborUpdate_body_def RedstoneDustComponent_onNeighborUpdate_def
             split: bind_splits)
  have "(if powerLevel c \<noteq> m then notify' x y (dustAssign me x y m s) else Some s) = Some s'"
    using r assms(1) by (cases "powerLevel c \<noteq> m") simp_all
  then show ?thesis
    using True m
    by (simp add: onNeighborUpdate_body_def RedstoneDustComponent_onNeighborUpdate_def)
next
  case False
  then have "onNeighborUpdate_body notify' me c x y fx fy s
             = onNeighborUpdate_body notify me c x y fx fy s"
    by (cases "cls c") (simp_all add: onNeighborUpdate_body_def)
  with assms(2) show ?thesis by simp
qed

lemma notifyDir_body_mono:
  assumes "\<And>a b t t'. notify a b t = Some t' \<Longrightarrow> notify' a b t = Some t'"
    and "notifyDir_body notify x y dir s = Some s'"
  shows "notifyDir_body notify' x y dir s = Some s'"
proof -
  obtain vx vy where v: "toVector dir = (vx, vy)" by (cases "toVector dir")
  show ?thesis
  proof (cases "getBlockEntity s (x + vx) (y + vy)")
    case None
    with assms(2) show ?thesis by (simp add: notifyDir_body_def v)
  next
    case (Some p)
    obtain i e where p: "p = (i, e)" by (cases p)
    show ?thesis
    proof (cases "redstone e")
      case None
      with assms(2) Some p show ?thesis by (simp add: notifyDir_body_def v)
    next
      case c: (Some c)
      with assms(2) Some p
      have "onNeighborUpdate_body notify i c (x + vx) (y + vy) x y s = Some s'"
        by (simp add: notifyDir_body_def v)
      from onNeighborUpdate_body_mono[OF assms(1) this]
      show ?thesis using Some p c by (simp add: notifyDir_body_def v)
    qed
  qed
qed

lemma notifyNeighbors_Suc:
  "notifyNeighbors n x y s = Some s' \<Longrightarrow> notifyNeighbors (Suc n) x y s = Some s'"
proof (induction n arbitrary: x y s s')
  case 0
  then show ?case by simp
next
  case (Suc n)
  from Suc.prems obtain s0 s1 s2 where
    a: "notifyDir_body (notifyNeighbors n) x y 0 s = Some s0"
       "notifyDir_body (notifyNeighbors n) x y 1 s0 = Some s1"
       "notifyDir_body (notifyNeighbors n) x y 2 s1 = Some s2"
       "notifyDir_body (notifyNeighbors n) x y 3 s2 = Some s'"
    by (auto split: bind_splits)
  have m: "notifyDir_body (notifyNeighbors (Suc n)) x y d t = Some t'"
    if "notifyDir_body (notifyNeighbors n) x y d t = Some t'" for d t t'
    by (rule notifyDir_body_mono[OF _ that]) (rule Suc.IH)
  have "notifyNeighbors (Suc (Suc n)) x y s
        = do { s0 \<leftarrow> notifyDir_body (notifyNeighbors (Suc n)) x y 0 s;
               s1 \<leftarrow> notifyDir_body (notifyNeighbors (Suc n)) x y 1 s0;
               s2 \<leftarrow> notifyDir_body (notifyNeighbors (Suc n)) x y 2 s1;
               notifyDir_body (notifyNeighbors (Suc n)) x y 3 s2 }"
    by (rule notifyNeighbors.simps(2))
  also have "\<dots> = Some s'"
    by (simp only: m[OF a(1)] m[OF a(2)] m[OF a(3)] m[OF a(4)] Option.bind.simps)
  finally show ?case .
qed

lemma notifyNeighbors_mono:
  assumes "notifyNeighbors n x y s = Some s'" "n \<le> k"
  shows "notifyNeighbors k x y s = Some s'"
  using assms(2,1) by (induction rule: dec_induct) (simp_all add: notifyNeighbors_Suc del: notifyNeighbors.simps)

lemma notifyDir_mono:
  assumes "notifyDir_body (notifyNeighbors n) x y d s = Some s'" "n \<le> k"
  shows "notifyDir_body (notifyNeighbors k) x y d s = Some s'"
  by (rule notifyDir_body_mono[OF _ assms(1)]) (rule notifyNeighbors_mono[OF _ assms(2)])

subsection \<open>The neighbor update of a block that is not a wire\<close>

lemma wireAt_scheduleBlockUpdate [simp]:
  "wireAt (scheduleBlockUpdate x y d p s) px py = wireAt s px py"
  by (simp add: wireAt_def getBlockEntity_def scheduleBlockUpdate_def)

lemma wireAt_locked:
  assumes "distinct_ids s"
  shows "wireAt (setThis me (\<lambda>r. r\<lparr>locked := b\<rparr>) s) px py = wireAt s px py"
proof (cases "getBlockEntity s px py")
  case None
  then show ?thesis by (simp add: wireAt_def getBlockEntity_setThis[OF assms])
next
  case (Some p)
  obtain i e where p: "p = (i, e)" by (cases p)
  show ?thesis
    using Some p
    by (cases "redstone e") (simp_all add: wireAt_def getBlockEntity_setThis[OF assms])
qed

lemma steady_Repeater:
  assumes "distinct_ids s" "RepeaterComponent_onNeighborUpdate me c x y s = Some s'"
  shows "wireAt s' px py = wireAt s px py"
  using assms(2) wireAt_locked[OF assms(1)]
  unfolding RepeaterComponent_onNeighborUpdate_def
  by (auto simp: Let_def split: bind_splits if_splits)

lemma steady_Observer:
  assumes "ObserverComponent_onNeighborUpdate x y fx fy s = Some s'"
  shows "wireAt s' px py = wireAt s px py"
  using assms unfolding ObserverComponent_onNeighborUpdate_def
  by (auto simp: Let_def split: bind_splits if_splits prod.splits)

lemma steady_Piston:
  assumes "PistonComponent_onNeighborUpdate c x y s = Some s'"
  shows "wireAt s' px py = wireAt s px py"
  using assms unfolding PistonComponent_onNeighborUpdate_def
  by (auto simp: Let_def split: bind_splits if_splits)

lemma Repeater_onNeighborUpdate_total:
  assumes "getBlockEntity s x y = Some (i, e)"
  shows "\<exists>s'. RepeaterComponent_onNeighborUpdate me c x y s = Some s'"
proof -
  let ?rot = "bs_rotation (blockState e)"
  obtain left where left: "getRepeaterInput s x y (js_rem (?rot + 3) 4) = Some left"
    using getRepeaterInput_total by blast
  obtain right where right: "getRepeaterInput s x y (js_rem (?rot + 1) 4) = Some right"
    using getRepeaterInput_total by blast
  show ?thesis
  proof (cases "left > 0 \<or> right > 0")
    case True
    then show ?thesis
      using rotationAt_Some[OF assms] left right
      by (simp add: RepeaterComponent_onNeighborUpdate_def Let_def)
  next
    case False
    obtain rear where "getPower (setThis me (\<lambda>r. r\<lparr>locked := False\<rparr>) s) x y
                         (js_rem (?rot + 2) 4) = Some rear"
      using getPower_total by blast
    then show ?thesis
      using False rotationAt_Some[OF assms] left right
      by (simp add: RepeaterComponent_onNeighborUpdate_def Let_def)
  qed
qed

lemma Observer_onNeighborUpdate_total:
  assumes "getBlockEntity s x y = Some (i, e)"
  shows "\<exists>s'. ObserverComponent_onNeighborUpdate x y fx fy s = Some s'"
  using rotationAt_Some[OF assms]
  by (simp add: ObserverComponent_onNeighborUpdate_def Let_def split_beta)

lemma Piston_onNeighborUpdate_total:
  "\<exists>s'. PistonComponent_onNeighborUpdate c x y s = Some s'"
proof -
  obtain p where "getMaxNeighborPower s x y = Some p" using getMaxNeighborPower_total by blast
  then show ?thesis by (simp add: PistonComponent_onNeighborUpdate_def Let_def)
qed

text \<open>It returns, whatever the stack bound, and no wire has another level afterwards.\<close>

lemma quiet_step:
  assumes "distinct_ids s" "getBlockEntity s x y = Some (i, e)" "redstone e = Some c"
    "cls c \<noteq> RedstoneDustComponent"
  shows "\<exists>s'. onNeighborUpdate_body notify i c x y fx fy s = Some s'
              \<and> cascade s s' \<and> (\<forall>px py. wireAt s' px py = wireAt s px py)"
proof -
  have tot: "\<exists>s'. onNeighborUpdate_body notify i c x y fx fy s = Some s'"
    using assms(4) Repeater_onNeighborUpdate_total[OF assms(2)]
      Observer_onNeighborUpdate_total[OF assms(2)] Piston_onNeighborUpdate_total
    by (cases "cls c") (simp_all add: onNeighborUpdate_body_def)
  then obtain s' where r: "onNeighborUpdate_body notify i c x y fx fy s = Some s'" by blast
  have "onNeighborUpdate_body (\<lambda>a b t. None) i c x y fx fy s
        = onNeighborUpdate_body notify i c x y fx fy s"
    using assms(4) by (cases "cls c") (simp_all add: onNeighborUpdate_body_def)
  with r have r0: "onNeighborUpdate_body (\<lambda>a b t. None) i c x y fx fy s = Some s'" by simp
  have cas: "cascade s s'"
    by (rule cascade_onNeighborUpdate_body[OF _ assms(1) getBlockEntity_SomeD(1)[OF assms(2)]
          assms(3) r0]) simp
  have st: "\<forall>px py. wireAt s' px py = wireAt s px py"
    using r assms(4) steady_Repeater[OF assms(1)] steady_Observer steady_Piston
    by (cases "cls c") (auto simp: onNeighborUpdate_body_def)
  from r cas st show ?thesis by blast
qed

subsection \<open>Every cascade of neighbor updates ends\<close>

lemma step_returns:
  assumes ih: "\<And>a qx qy. backlog a < backlog t \<Longrightarrow> distinct_ids a
                 \<Longrightarrow> \<exists>n a'. notifyNeighbors n qx qy a = Some a' \<and> backlog a' \<le> backlog a"
    and d: "distinct_ids t"
  shows "\<exists>n t'. notifyDir_body (notifyNeighbors n) x y dir t = Some t'
                \<and> backlog t' \<le> backlog t \<and> distinct_ids t'"
proof -
  obtain vx vy where v: "toVector dir = (vx, vy)" by (cases "toVector dir")
  show ?thesis
  proof (cases "getBlockEntity t (x + vx) (y + vy)")
    case None
    then have "notifyDir_body (notifyNeighbors 0) x y dir t = Some t"
      by (simp add: notifyDir_body_def v)
    with d show ?thesis by (intro exI[of _ 0] exI[of _ t]) simp
  next
    case (Some p)
    obtain i e where p: "p = (i, e)" by (cases p)
    note g = Some[unfolded p]
    show ?thesis
    proof (cases "redstone e")
      case None
      then have "notifyDir_body (notifyNeighbors 0) x y dir t = Some t"
        using g by (simp add: notifyDir_body_def v)
      with d show ?thesis by (intro exI[of _ 0] exI[of _ t]) simp
    next
      case c: (Some c)
      have body: "notifyDir_body notify x y dir t
                  = onNeighborUpdate_body notify i c (x + vx) (y + vy) x y t" for notify
        using g c by (simp add: notifyDir_body_def v)
      show ?thesis
      proof (cases "cls c = RedstoneDustComponent")
        case False
        from quiet_step[OF d g c False, of "notifyNeighbors 0" x y]
        obtain t' where t': "onNeighborUpdate_body (notifyNeighbors 0) i c (x + vx) (y + vy) x y t = Some t'"
          "cascade t t'" "\<forall>px py. wireAt t' px py = wireAt t px py"
          by blast
        have "backlog t' = backlog t" by (rule quiet_backlog[OF t'(2)]) (simp add: t'(3))
        moreover have "distinct_ids t'" by (rule cascade_distinct_ids[OF t'(2) d])
        ultimately show ?thesis
          using t'(1) by (intro exI[of _ 0] exI[of _ t']) (simp add: body)
      next
        case True
        obtain m where m: "dustMaxPower t (x + vx) (y + vy) = Some m"
          using dustMaxPower_total by blast
        have upd: "onNeighborUpdate_body notify i c (x + vx) (y + vy) x y t
                   = (if powerLevel c \<noteq> m
                      then notify (x + vx) (y + vy) (dustAssign i (x + vx) (y + vy) m t)
                      else Some t)" for notify
          using True m
          by (simp add: onNeighborUpdate_body_def RedstoneDustComponent_onNeighborUpdate_def)
        show ?thesis
        proof (cases "powerLevel c = m")
          case True
          then have "notifyDir_body (notifyNeighbors 0) x y dir t = Some t"
            by (simp add: body upd)
          with d show ?thesis by (intro exI[of _ 0] exI[of _ t]) simp
        next
          case False
          let ?a = "dustAssign i (x + vx) (y + vy) m t"
          have w: "wireLevel t (x + vx) (y + vy) = Some m"
            using m by (simp add: dustMaxPower_wireLevel)
          have less: "backlog ?a < backlog t"
            by (rule backlog_dustAssign[OF d g c True w False])
          have cas: "cascade t ?a"
            by (rule cascade_dustAssign[OF d getBlockEntity_SomeD(1)[OF g] c True])
          have da: "distinct_ids ?a" by (rule cascade_distinct_ids[OF cas d])
          from ih[OF less da, of "x + vx" "y + vy"]
          obtain n a' where n: "notifyNeighbors n (x + vx) (y + vy) ?a = Some a'"
            "backlog a' \<le> backlog ?a"
            by blast
          have "notifyDir_body (notifyNeighbors n) x y dir t = Some a'"
            using False n(1) by (simp add: body upd)
          moreover have "backlog a' \<le> backlog t" using n(2) less by simp
          moreover have "distinct_ids a'"
            by (rule cascade_distinct_ids[OF cascade_notifyNeighbors[OF da n(1)] da])
          ultimately show ?thesis by blast
        qed
      qed
    qed
  qed
qed

lemma cascade_returns:
  assumes "distinct_ids s"
  shows "\<exists>n s'. notifyNeighbors n x y s = Some s' \<and> backlog s' \<le> backlog s"
proof -
  define P where "P M \<longleftrightarrow> (\<forall>s x y. backlog s = M \<longrightarrow> distinct_ids s
                  \<longrightarrow> (\<exists>n s'. notifyNeighbors n x y s = Some s' \<and> backlog s' \<le> backlog s))" for M
  have "P M" for M
  proof (rule wf_induct[OF wf_less_multiset])
    fix N :: "nat multiset"
    assume "\<forall>K. (K, N) \<in> {(M, N). M < N} \<longrightarrow> P K"
    then have ih: "\<exists>n a'. notifyNeighbors n qx qy a = Some a' \<and> backlog a' \<le> backlog a"
      if "backlog a < N" "distinct_ids a" for a qx qy
      using that by (auto simp: P_def)
    show "P N"
      unfolding P_def
    proof (intro allI impI)
      fix s x y assume N: "backlog s = N" and d: "distinct_ids s"
      have step: "\<exists>n t'. notifyDir_body (notifyNeighbors n) x y dir t = Some t'
                    \<and> backlog t' \<le> backlog t \<and> distinct_ids t'"
        if "backlog t \<le> N" "distinct_ids t" for t dir
      proof (rule step_returns[OF _ that(2)])
        fix a qx qy assume "backlog a < backlog t" "distinct_ids a"
        with that(1) have "backlog a < N" by simp
        then show "\<exists>n a'. notifyNeighbors n qx qy a = Some a' \<and> backlog a' \<le> backlog a"
          using \<open>distinct_ids a\<close> by (rule ih)
      qed
      have l0: "backlog s \<le> N" using N by simp
      from step[OF l0 d, of 0] obtain n0 s0 where
        s0: "notifyDir_body (notifyNeighbors n0) x y 0 s = Some s0" "backlog s0 \<le> backlog s"
            "distinct_ids s0"
        by blast
      have l1: "backlog s0 \<le> N" by (rule order_trans[OF s0(2) l0])
      from step[OF l1 s0(3), of 1] obtain n1 s1 where
        s1: "notifyDir_body (notifyNeighbors n1) x y 1 s0 = Some s1" "backlog s1 \<le> backlog s0"
            "distinct_ids s1"
        by blast
      have l2: "backlog s1 \<le> N" by (rule order_trans[OF s1(2) l1])
      from step[OF l2 s1(3), of 2] obtain n2 s2 where
        s2: "notifyDir_body (notifyNeighbors n2) x y 2 s1 = Some s2" "backlog s2 \<le> backlog s1"
            "distinct_ids s2"
        by blast
      have l3: "backlog s2 \<le> N" by (rule order_trans[OF s2(2) l2])
      from step[OF l3 s2(3), of 3] obtain n3 s3 where
        s3: "notifyDir_body (notifyNeighbors n3) x y 3 s2 = Some s3" "backlog s3 \<le> backlog s2"
            "distinct_ids s3"
        by blast
      let ?n = "max (max n0 n1) (max n2 n3)"
      have "notifyNeighbors (Suc ?n) x y s
            = do { s0 \<leftarrow> notifyDir_body (notifyNeighbors ?n) x y 0 s;
                   s1 \<leftarrow> notifyDir_body (notifyNeighbors ?n) x y 1 s0;
                   s2 \<leftarrow> notifyDir_body (notifyNeighbors ?n) x y 2 s1;
                   notifyDir_body (notifyNeighbors ?n) x y 3 s2 }"
        by (rule notifyNeighbors.simps(2))
      also have "\<dots> = Some s3"
        by (simp only: notifyDir_mono[OF s0(1), of ?n] notifyDir_mono[OF s1(1), of ?n]
              notifyDir_mono[OF s2(1), of ?n] notifyDir_mono[OF s3(1), of ?n]
              Option.bind.simps max.cobounded1 max.cobounded2 max.coboundedI1 max.coboundedI2
              simp_thms)
      finally have r: "notifyNeighbors (Suc ?n) x y s = Some s3" .
      have "backlog s3 \<le> backlog s"
        by (rule order_trans[OF s3(2) order_trans[OF s2(2) order_trans[OF s1(2) s0(2)]]])
      with r show "\<exists>n s'. notifyNeighbors n x y s = Some s' \<and> backlog s' \<le> backlog s"
        by blast
    qed
  qed
  then show ?thesis using assms by (simp add: P_def)
qed

text \<open>
  So the recursion of \<open>notifyNeighbors\<close> and \<open>onNeighborUpdate\<close> is bounded in every
  state: there is a depth from which on the stack bound does not matter, and the state
  returned is the same for every deeper one.
\<close>

lemma notifyNeighbors_returns:
  assumes "distinct_ids s"
  shows "\<exists>N s'. \<forall>n \<ge> N. notifyNeighbors n x y s = Some s'"
proof -
  from cascade_returns[OF assms, of x y] obtain N s' where "notifyNeighbors N x y s = Some s'"
    by blast
  then have "\<forall>n \<ge> N. notifyNeighbors n x y s = Some s'"
    by (auto intro: notifyNeighbors_mono)
  then show ?thesis by blast
qed


subsection \<open>What a cascade leaves settled\<close>

lemma settled_dustAssign:
  assumes "distinct_ids s" "getBlockEntity s x y = Some (i, e)" "redstone e = Some c"
    "cls c = RedstoneDustComponent" "wireLevel s x y = Some m"
  shows "unsettled (dustAssign i x y m s) (x, y) = None"
proof -
  let ?a = "dustAssign i x y m s"
  note a4 = assms(1-4)
  have m0: "0 \<le> m" by (rule wireLevel_nonneg[OF assms(5)])
  obtain F F' where f: "wireLevel s x y = Some F" "wireLevel ?a x y = Some F'"
    "(\<forall>d \<in> {0, 1, 2, 3}. (x + fst (toVector d), y + snd (toVector d)) \<noteq> (x, y)) \<longrightarrow> F' = F"
    using wireLevel_dustAssign[OF a4 m0, where px = x and py = y] by (elim exE conjE)
  have "\<forall>d \<in> {0, 1, 2, 3}. (x + fst (toVector d), y + snd (toVector d)) \<noteq> (x, y)"
    by (simp add: toVector_def)
  with f(3) have "F' = F" by (rule mp)
  with f(1,2) assms(5) have "wireLevel ?a x y = Some m" by simp
  then show ?thesis by (simp add: unsettled_def wireAt_dustAssign[OF a4])
qed

lemma unsettled_dustAssign_far:
  assumes "distinct_ids s" "getBlockEntity s x y = Some (i, e)" "redstone e = Some c"
    "cls c = RedstoneDustComponent" "wireLevel s x y = Some m"
    and far: "\<forall>d \<in> {0, 1, 2, 3}. (px + fst (toVector d), py + snd (toVector d)) \<noteq> (x, y)"
    and ne: "(px, py) \<noteq> (x, y)"
  shows "unsettled (dustAssign i x y m s) (px, py) = unsettled s (px, py)"
proof -
  let ?a = "dustAssign i x y m s"
  note a4 = assms(1-4)
  have m0: "0 \<le> m" by (rule wireLevel_nonneg[OF assms(5)])
  obtain F F' where f: "wireLevel s px py = Some F" "wireLevel ?a px py = Some F'"
    "(\<forall>d \<in> {0, 1, 2, 3}. (px + fst (toVector d), py + snd (toVector d)) \<noteq> (x, y)) \<longrightarrow> F' = F"
    using wireLevel_dustAssign[OF a4 m0, where px = px and py = py] by (elim exE conjE)
  from f(3) far have "F' = F" by (rule mp)
  with f(1,2) have w: "wireLevel ?a px py = wireLevel s px py" by simp
  have wa: "wireAt ?a px py = wireAt s px py"
    using ne by (simp only: wireAt_dustAssign[OF a4] if_False)
  show ?thesis unfolding unsettled_def fst_conv snd_conv by (simp only: w wa)
qed

lemma adjacent_back:
  assumes "d \<in> {0, 1, 2, 3}" "(px + fst (toVector d), py + snd (toVector d)) = (qx, qy)"
  shows "\<exists>d' \<in> {0, 1, 2, 3}. (qx + fst (toVector d'), qy + snd (toVector d')) = (px, py)"
proof -
  from assms(1) consider "d = 0" | "d = 1" | "d = 2" | "d = 3" by blast
  then show ?thesis
  proof cases
    case 1
    with assms(2) have "(qx + fst (toVector 2), qy + snd (toVector 2)) = (px, py)"
      by (auto simp: toVector_def)
    then show ?thesis by blast
  next
    case 2
    with assms(2) have "(qx + fst (toVector 3), qy + snd (toVector 3)) = (px, py)"
      by (auto simp: toVector_def)
    then show ?thesis by blast
  next
    case 3
    with assms(2) have "(qx + fst (toVector 0), qy + snd (toVector 0)) = (px, py)"
      by (auto simp: toVector_def)
    then show ?thesis by blast
  next
    case 4
    with assms(2) have "(qx + fst (toVector 1), qy + snd (toVector 1)) = (px, py)"
      by (auto simp: toVector_def)
    then show ?thesis by blast
  qed
qed

text \<open>
  One step of \<open>notifyNeighbors\<close>, over a \<open>notify\<close> that leaves the four neighbors of its
  cell settled and unsettles no wire: the neighbor in the step's direction is settled
  afterwards, and no wire is unsettled by the step.
\<close>

lemma settle_notifyDir_body:
  assumes notify: "\<And>x y s s'. distinct_ids s \<Longrightarrow> notify x y s = Some s'
             \<Longrightarrow> (\<forall>d \<in> {0, 1, 2, 3}.
                    unsettled s' (x + fst (toVector d), y + snd (toVector d)) = None)
                 \<and> (\<forall>p. unsettled s p = None \<longrightarrow> unsettled s' p = None)"
    and d: "distinct_ids s"
    and r: "notifyDir_body notify x y dir s = Some s'"
  shows "unsettled s' (x + fst (toVector dir), y + snd (toVector dir)) = None
         \<and> (\<forall>p. unsettled s p = None \<longrightarrow> unsettled s' p = None)"
proof -
  obtain vx vy where v: "toVector dir = (vx, vy)" by (cases "toVector dir")
  have q: "(x + fst (toVector dir), y + snd (toVector dir)) = (x + vx, y + vy)"
    by (simp add: v)
  show ?thesis
    unfolding q
  proof (cases "getBlockEntity s (x + vx) (y + vy)")
    case None
    then have "s' = s" using r by (simp add: notifyDir_body_def v)
    moreover have "unsettled s (x + vx, y + vy) = None"
      using None by (simp add: unsettled_def wireAt_def)
    ultimately show "unsettled s' (x + vx, y + vy) = None
         \<and> (\<forall>p. unsettled s p = None \<longrightarrow> unsettled s' p = None)"
      by simp
  next
    case (Some p)
    obtain i e where p: "p = (i, e)" by (cases p)
    note g = Some[unfolded p]
    show "unsettled s' (x + vx, y + vy) = None
         \<and> (\<forall>p. unsettled s p = None \<longrightarrow> unsettled s' p = None)"
    proof (cases "redstone e")
      case None
      then have "s' = s" using r g by (simp add: notifyDir_body_def v)
      moreover have "unsettled s (x + vx, y + vy) = None"
        using None g by (simp add: unsettled_def wireAt_def)
      ultimately show ?thesis by simp
    next
      case c: (Some c)
      have body: "onNeighborUpdate_body notify i c (x + vx) (y + vy) x y s = Some s'"
        using r g c by (simp add: notifyDir_body_def v)
      show ?thesis
      proof (cases "cls c = RedstoneDustComponent")
        case False
        from quiet_step[OF d g c False, of notify x y] body
        have "cascade s s'" "\<forall>px py. wireAt s' px py = wireAt s px py" by auto
        then have "unsettled s' = unsettled s"
          using quiet_unsettled[of s s'] by (intro ext) simp
        moreover have "unsettled s (x + vx, y + vy) = None"
          using False g c by (simp add: unsettled_def wireAt_def)
        ultimately show ?thesis by simp
      next
        case True
        obtain m where m: "dustMaxPower s (x + vx) (y + vy) = Some m"
          using dustMaxPower_total by blast
        have w: "wireLevel s (x + vx) (y + vy) = Some m"
          using m by (simp add: dustMaxPower_wireLevel)
        have upd: "(if powerLevel c \<noteq> m
                    then notify (x + vx) (y + vy) (dustAssign i (x + vx) (y + vy) m s)
                    else Some s) = Some s'"
          using body True m
          by (simp add: onNeighborUpdate_body_def RedstoneDustComponent_onNeighborUpdate_def)
        show ?thesis
        proof (cases "powerLevel c = m")
          case same: True
          then have "s' = s" using upd by simp
          moreover have "unsettled s (x + vx, y + vy) = None"
            using same True g c w by (simp add: unsettled_def wireAt_def)
          ultimately show ?thesis by simp
        next
          case False
          let ?a = "dustAssign i (x + vx) (y + vy) m s"
          have n: "notify (x + vx) (y + vy) ?a = Some s'" using upd False by simp
          have da: "distinct_ids ?a" using d by (simp add: dustAssign_def)
          note nn = notify[OF da n]
          have around: "\<forall>d \<in> {0, 1, 2, 3}.
                   unsettled s' (x + vx + fst (toVector d), y + vy + snd (toVector d)) = None"
            by (rule nn[THEN conjunct1])
          have kept: "\<forall>p. unsettled ?a p = None \<longrightarrow> unsettled s' p = None"
            by (rule nn[THEN conjunct2])
          have self: "unsettled ?a (x + vx, y + vy) = None"
            by (rule settled_dustAssign[OF d g c True w])
          have "unsettled s' pp = None" if st: "unsettled s pp = None" for pp
          proof (cases "unsettled ?a pp = None")
            case True
            with kept show ?thesis by blast
          next
            case False
            obtain px py where pp: "pp = (px, py)" by (cases pp)
            have ne: "(px, py) \<noteq> (x + vx, y + vy)" using False self pp by auto
            have "\<not> (\<forall>d \<in> {0, 1, 2, 3}.
                      (px + fst (toVector d), py + snd (toVector d)) \<noteq> (x + vx, y + vy))"
            proof
              assume "\<forall>d \<in> {0, 1, 2, 3}.
                      (px + fst (toVector d), py + snd (toVector d)) \<noteq> (x + vx, y + vy)"
              from unsettled_dustAssign_far[OF d g c True w this ne]
              show False using False st pp by simp
            qed
            then obtain d0 where d0: "d0 \<in> {0, 1, 2, 3}"
              "(px + fst (toVector d0), py + snd (toVector d0)) = (x + vx, y + vy)"
              by blast
            from adjacent_back[OF d0] obtain d' where d': "d' \<in> {0, 1, 2, 3}"
              "(x + vx + fst (toVector d'), y + vy + snd (toVector d')) = (px, py)"
              by blast
            from around d'(1)
            have "unsettled s' (x + vx + fst (toVector d'), y + vy + snd (toVector d')) = None"
              by (rule bspec)
            then show ?thesis using d'(2) pp by simp
          qed
          moreover have "unsettled s' (x + vx, y + vy) = None" using kept self by blast
          ultimately show ?thesis by blast
        qed
      qed
    qed
  qed
qed

lemma settle_notifyNeighbors:
  "distinct_ids s \<Longrightarrow> notifyNeighbors n x y s = Some s'
   \<Longrightarrow> (\<forall>d \<in> {0, 1, 2, 3}. unsettled s' (x + fst (toVector d), y + snd (toVector d)) = None)
       \<and> (\<forall>p. unsettled s p = None \<longrightarrow> unsettled s' p = None)"
proof (induction n arbitrary: x y s s')
  case 0
  then show ?case by simp
next
  case (Suc n)
  from Suc.prems(2) obtain s0 s1 s2 where
    a: "notifyDir_body (notifyNeighbors n) x y 0 s = Some s0"
       "notifyDir_body (notifyNeighbors n) x y 1 s0 = Some s1"
       "notifyDir_body (notifyNeighbors n) x y 2 s1 = Some s2"
       "notifyDir_body (notifyNeighbors n) x y 3 s2 = Some s'"
    by (auto split: bind_splits)
  have casc: "cascade t t'" if "distinct_ids t" "notifyDir_body (notifyNeighbors n) x y dir t = Some t'"
    for t t' dir
    by (rule cascade_notifyDir_body[OF _ that]) (rule cascade_notifyNeighbors)
  have d0: "distinct_ids s0" by (rule cascade_distinct_ids[OF casc[OF Suc.prems(1) a(1)] Suc.prems(1)])
  have d1: "distinct_ids s1" by (rule cascade_distinct_ids[OF casc[OF d0 a(2)] d0])
  have d2: "distinct_ids s2" by (rule cascade_distinct_ids[OF casc[OF d1 a(3)] d1])
  have st: "unsettled t' (x + fst (toVector dir), y + snd (toVector dir)) = None
            \<and> (\<forall>p. unsettled t p = None \<longrightarrow> unsettled t' p = None)"
    if "distinct_ids t" "notifyDir_body (notifyNeighbors n) x y dir t = Some t'" for t t' dir
    by (rule settle_notifyDir_body[where notify = "notifyNeighbors n", OF _ that])
       (rule Suc.IH; assumption)
  have e0: "unsettled s0 (x + fst (toVector 0), y + snd (toVector 0)) = None"
    by (rule st[OF Suc.prems(1) a(1), THEN conjunct1])
  have k0: "\<forall>p. unsettled s p = None \<longrightarrow> unsettled s0 p = None"
    by (rule st[OF Suc.prems(1) a(1), THEN conjunct2])
  have e1: "unsettled s1 (x + fst (toVector 1), y + snd (toVector 1)) = None"
    by (rule st[OF d0 a(2), THEN conjunct1])
  have k1: "\<forall>p. unsettled s0 p = None \<longrightarrow> unsettled s1 p = None"
    by (rule st[OF d0 a(2), THEN conjunct2])
  have e2: "unsettled s2 (x + fst (toVector 2), y + snd (toVector 2)) = None"
    by (rule st[OF d1 a(3), THEN conjunct1])
  have k2: "\<forall>p. unsettled s1 p = None \<longrightarrow> unsettled s2 p = None"
    by (rule st[OF d1 a(3), THEN conjunct2])
  have e3: "unsettled s' (x + fst (toVector 3), y + snd (toVector 3)) = None"
    by (rule st[OF d2 a(4), THEN conjunct1])
  have k3: "\<forall>p. unsettled s2 p = None \<longrightarrow> unsettled s' p = None"
    by (rule st[OF d2 a(4), THEN conjunct2])
  have f0: "unsettled s' (x + fst (toVector 0), y + snd (toVector 0)) = None"
    using e0 k1 k2 k3 by blast
  have f1: "unsettled s' (x + fst (toVector 1), y + snd (toVector 1)) = None"
    using e1 k2 k3 by blast
  have f2: "unsettled s' (x + fst (toVector 2), y + snd (toVector 2)) = None"
    using e2 k3 by blast
  have all: "\<forall>d \<in> {0, 1, 2, 3}. unsettled s' (x + fst (toVector d), y + snd (toVector d)) = None"
    using f0 f1 f2 e3 by blast
  have kept: "\<forall>p. unsettled s p = None \<longrightarrow> unsettled s' p = None"
    using k0 k1 k2 k3 by blast
  from all kept show ?case by blast
qed

text \<open>
  A settled wire, in words of levels: the level of the wire found at the cell is the one
  its neighbors ask for.
\<close>

lemma unsettled_None_iff:
  "unsettled s (x, y) = None \<longleftrightarrow> (\<forall>l. wireAt s x y = Some l \<longrightarrow> wireLevel s x y = Some l)"
proof -
  obtain m where m: "dustMaxPower s x y = Some m" using dustMaxPower_total by blast
  then have w: "wireLevel s x y = Some m" by (simp add: dustMaxPower_wireLevel)
  show ?thesis by (cases "wireAt s x y") (auto simp: unsettled_def w)
qed


subsection \<open>The comparator's scheduled tick\<close>

text \<open>
  Claim C9. On a comparator's scheduled tick, with \<open>rear\<close> the power entering from the
  rear and \<open>side\<close> the larger of the two side inputs, the new output is
  \<open>max 0 (rear - side)\<close> in Subtract mode and, in Compare mode, \<open>rear\<close> if
  \<open>rear \<ge> side\<close> and 0 otherwise. When it is the output the comparator already has, the
  tick returns the state as it is; otherwise the tick is the assignment of the new
  output followed by the notification of the neighbors. The tick returns, with the same
  state for every stack bound from some depth on, and the output the comparator holds
  when it returns is the new one. So with \<open>rear = side\<close> Compare mode gives \<open>rear\<close>.
\<close>

theorem comparator_scheduled_output:
  assumes "distinct_ids s" "getBlockEntity s x y = Some (me, e)" "redstone e = Some c"
    "cls c = ComparatorComponent"
  shows "\<exists>rear left right.
           getPower s x y (js_rem (bs_rotation (blockState e) + 2) 4) = Some rear
         \<and> getPower s x y (js_rem (bs_rotation (blockState e) + 3) 4) = Some left
         \<and> getPower s x y (js_rem (bs_rotation (blockState e) + 1) 4) = Some right
         \<and> (\<forall>n. onScheduledTick n me c x y s
                  = (if outputPower c \<noteq> comparatorNewPower (mode c) rear (max left right)
                     then notifyNeighbors n x y
                            (updateBlockState x y
                               (\<lambda>b. b\<lparr>bs_type :=
                                        (if comparatorNewPower (mode c) rear (max left right) > 0
                                         then ''minecraft:comparator_on''
                                         else ''minecraft:comparator''),
                                      bs_powerLevel :=
                                        comparatorNewPower (mode c) rear (max left right)\<rparr>)
                               (setThis me
                                  (\<lambda>r. r\<lparr>outputPower :=
                                             comparatorNewPower (mode c) rear (max left right),
                                           powerLevel :=
                                             comparatorNewPower (mode c) rear (max left right)\<rparr>)
                                  s))
                     else Some s))
         \<and> comparatorNewPower (mode c) rear (max left right)
             = (if mode c = ''subtract'' then max 0 (rear - max left right)
                else if rear \<ge> max left right then rear else 0)
         \<and> (\<exists>N s'. \<forall>n \<ge> N. onScheduledTick n me c x y s = Some s')
         \<and> (\<forall>n s'. onScheduledTick n me c x y s = Some s' \<longrightarrow>
               (\<exists>c'. compOf s' me = Some c'
                  \<and> (mode c = ''subtract'' \<longrightarrow> outputPower c' = max 0 (rear - max left right))
                  \<and> (mode c \<noteq> ''subtract'' \<longrightarrow>
                        outputPower c' = (if rear \<ge> max left right then rear else 0))
                  \<and> (mode c \<noteq> ''subtract'' \<and> rear = max left right \<longrightarrow> outputPower c' = rear)))"
proof -
  let ?rot = "bs_rotation (blockState e)"
  obtain rear where rear: "getPower s x y (js_rem (?rot + 2) 4) = Some rear"
    using getPower_total by blast
  obtain left where left: "getPower s x y (js_rem (?rot + 3) 4) = Some left"
    using getPower_total by blast
  obtain right where right: "getPower s x y (js_rem (?rot + 1) 4) = Some right"
    using getPower_total by blast
  let ?new = "comparatorNewPower (mode c) rear (max left right)"
  let ?s2 = "updateBlockState x y
               (\<lambda>b. b\<lparr>bs_type := (if ?new > 0 then ''minecraft:comparator_on''
                                   else ''minecraft:comparator''),
                      bs_powerLevel := ?new\<rparr>)
               (setThis me (\<lambda>r. r\<lparr>outputPower := ?new, powerLevel := ?new\<rparr>) s)"
  have me: "compOf s me = Some c"
    using compOf_entity[OF assms(1,2)] assms(3) by simp
  have eq: "\<forall>n. onScheduledTick n me c x y s
                 = (if outputPower c \<noteq> ?new then notifyNeighbors n x y ?s2 else Some s)"
    using assms(4) rotationAt_Some[OF assms(2)] rear left right
    by (simp add: onScheduledTick_def ComparatorComponent_onScheduledTick_def Let_def)
  have val: "?new = (if mode c = ''subtract'' then max 0 (rear - max left right)
                     else if rear \<ge> max left right then rear else 0)"
    by (simp add: comparatorNewPower_def)
  have ret: "\<exists>N s'. \<forall>n \<ge> N. onScheduledTick n me c x y s = Some s'"
  proof (cases "outputPower c = ?new")
    case True
    then have "\<forall>n \<ge> 0. onScheduledTick n me c x y s = Some s" using eq by simp
    then show ?thesis by blast
  next
    case False
    have "distinct_ids ?s2" using assms(1) by simp
    from notifyNeighbors_returns[OF this, of x y] obtain N s' where
      "\<forall>n \<ge> N. notifyNeighbors n x y ?s2 = Some s'" by blast
    then have "\<forall>n \<ge> N. onScheduledTick n me c x y s = Some s'" using eq False by simp
    then show ?thesis by blast
  qed
  have out: "\<exists>c'. compOf s' me = Some c' \<and> outputPower c' = ?new"
    if r: "onScheduledTick n me c x y s = Some s'" for n s'
  proof (cases "outputPower c = ?new")
    case True
    then have "s' = s" using r eq by simp
    with me True show ?thesis by simp
  next
    case False
    have n: "notifyNeighbors n x y ?s2 = Some s'" using r eq False by simp
    have "cascade ?s2 s'"
      by (rule cascade_notifyNeighbors[OF _ n]) (simp add: assms(1))
    then obtain c' where "compOf s' me = Some c'"
      "same_but_level (c\<lparr>outputPower := ?new, powerLevel := ?new\<rparr>) c'"
      using me by (auto elim!: cascade_compOf_Some simp: compOf_setThis)
    then show ?thesis
      using same_but_levelD(5) by fastforce
  qed
  have fin: "\<forall>n s'. onScheduledTick n me c x y s = Some s' \<longrightarrow>
               (\<exists>c'. compOf s' me = Some c'
                  \<and> (mode c = ''subtract'' \<longrightarrow> outputPower c' = max 0 (rear - max left right))
                  \<and> (mode c \<noteq> ''subtract'' \<longrightarrow>
                        outputPower c' = (if rear \<ge> max left right then rear else 0))
                  \<and> (mode c \<noteq> ''subtract'' \<and> rear = max left right \<longrightarrow> outputPower c' = rear))"
  proof (intro allI impI)
    fix n s' assume "onScheduledTick n me c x y s = Some s'"
    from out[OF this] obtain c' where c': "compOf s' me = Some c'" "outputPower c' = ?new"
      by blast
    show "\<exists>c'. compOf s' me = Some c'
                  \<and> (mode c = ''subtract'' \<longrightarrow> outputPower c' = max 0 (rear - max left right))
                  \<and> (mode c \<noteq> ''subtract'' \<longrightarrow>
                        outputPower c' = (if rear \<ge> max left right then rear else 0))
                  \<and> (mode c \<noteq> ''subtract'' \<and> rear = max left right \<longrightarrow> outputPower c' = rear)"
      by (rule exI[of _ c']) (simp add: c' comparatorNewPower_def)
  qed
  show ?thesis
    by (rule exI[of _ rear], rule exI[of _ left], rule exI[of _ right])
       (intro conjI; fact rear left right eq val ret fin)
qed

theorem comparator_scheduled_output_witness:
  "distinct_ids comparatorScene
   \<and> getBlockEntity comparatorScene 1 0 = Some (2, newEntity ''minecraft:comparator'' 1 0)
   \<and> redstone (newEntity ''minecraft:comparator'' 1 0) = Some (new_component ComparatorComponent)
   \<and> map_option (\<lambda>s'. map_option outputPower (compOf s' 2))
        (onScheduledTick 5 2 (new_component ComparatorComponent) 1 0 comparatorScene)
      = Some (Some 15)"
proof -
  have h1: "distinct_ids comparatorScene" by code_simp
  have h2: "getBlockEntity comparatorScene 1 0 = Some (2, newEntity ''minecraft:comparator'' 1 0)"
    by code_simp
  have h3: "redstone (newEntity ''minecraft:comparator'' 1 0) = Some (new_component ComparatorComponent)"
    by code_simp
  have h4: "cls (new_component ComparatorComponent) = ComparatorComponent" by code_simp
  obtain s' where r: "onScheduledTick 5 2 (new_component ComparatorComponent) 1 0 comparatorScene = Some s'"
    by (cases "onScheduledTick 5 2 (new_component ComparatorComponent) 1 0 comparatorScene")
       (code_simp, blast)
  have g: "getPower comparatorScene 1 0
             (js_rem (bs_rotation (blockState (newEntity ''minecraft:comparator'' 1 0)) + 2) 4) = Some 15"
    "getPower comparatorScene 1 0
             (js_rem (bs_rotation (blockState (newEntity ''minecraft:comparator'' 1 0)) + 3) 4) = Some 0"
    "getPower comparatorScene 1 0
             (js_rem (bs_rotation (blockState (newEntity ''minecraft:comparator'' 1 0)) + 1) 4) = Some 0"
    by code_simp+
  have m: "mode (new_component ComparatorComponent) \<noteq> ''subtract''" by code_simp
  from comparator_scheduled_output[OF h1 h2 h3 h4] g
  have "\<forall>n s'. onScheduledTick n 2 (new_component ComparatorComponent) 1 0 comparatorScene = Some s' \<longrightarrow>
               (\<exists>c'. compOf s' 2 = Some c'
                  \<and> (mode (new_component ComparatorComponent) \<noteq> ''subtract'' \<longrightarrow>
                        outputPower c' = (if (15::int) \<ge> max 0 0 then 15 else 0)))"
    by auto
  with r m have "map_option outputPower (compOf s' 2) = Some 15" by auto
  with h1 h2 h3 r show ?thesis by simp
qed

subsection \<open>The torch's scheduled tick\<close>

lemma torchLit_reachable:
  "run [placeOrInteract 20 ''minecraft:redstone_torch'' 1 1, tick 20, tick 20,
        placeOrInteract 20 ''minecraft:redstone_block'' 1 2] (RedstoneSimulator 64 48)
   = Some torchLit"
  by code_simp

text \<open>
  Claim C4, amended. The attachment direction of a torch with rotation \<open>r\<close> is the
  direction opposite to the one \<open>r\<close> indexes (0 south, 1 west, 2 north, 3 east). With
  \<open>p\<close> the power entering from the attachment direction when the scheduled reevaluation
  starts: a lit torch with \<open>p > 0\<close> is switched off and the neighbors are notified, an
  unlit torch with \<open>p = 0\<close> is lit and the neighbors are notified, and otherwise the
  state is returned as it is. The reevaluation returns, with the same state for every
  stack bound from some depth on; when it returns the torch is off (level 0) iff
  \<open>p > 0\<close>, and a level that was 0 or 15 is 0 or 15. Its output is 0 toward the
  attachment direction and its current level toward every other direction.
\<close>

theorem torch_scheduled_tick:
  assumes "distinct_ids s" "getBlockEntity s x y = Some (me, e)" "redstone e = Some c"
    "cls c = RedstoneTorchComponent" "bs_rotation (blockState e) \<in> {0, 1, 2, 3}"
  shows "attachedDir (bs_rotation (blockState e)) = opposite (bs_rotation (blockState e))
         \<and> (\<exists>p. getPower s x y (opposite (bs_rotation (blockState e))) = Some p
              \<and> (\<forall>n. onScheduledTick n me c x y s
                       = (if p > 0 \<and> powerLevel c \<noteq> 0
                          then notifyNeighbors n x y
                                 (updateBlockState x y
                                    (\<lambda>b. b\<lparr>bs_type := ''minecraft:redstone_torch_off''\<rparr>)
                                    (setThis me (\<lambda>r. r\<lparr>powerLevel := 0\<rparr>) s))
                          else if \<not> p > 0 \<and> powerLevel c = 0
                          then notifyNeighbors n x y
                                 (updateBlockState x y
                                    (\<lambda>b. b\<lparr>bs_type := ''minecraft:redstone_torch''\<rparr>)
                                    (setThis me (\<lambda>r. r\<lparr>powerLevel := 15\<rparr>) s))
                          else Some s))
              \<and> (\<exists>N s'. \<forall>n \<ge> N. onScheduledTick n me c x y s = Some s')
              \<and> (\<forall>n s'. onScheduledTick n me c x y s = Some s' \<longrightarrow>
                    (\<exists>c'. compOf s' me = Some c'
                       \<and> (powerLevel c' = 0 \<longleftrightarrow> p > 0)
                       \<and> (powerLevel c \<in> {0, 15} \<longrightarrow> powerLevel c' \<in> {0, 15}))))
         \<and> (\<forall>d. getPowerOutput s x y d c
                  = Some (if d = opposite (bs_rotation (blockState e)) then 0 else powerLevel c))"
proof -
  let ?rot = "bs_rotation (blockState e)"
  let ?off = "updateBlockState x y (\<lambda>b. b\<lparr>bs_type := ''minecraft:redstone_torch_off''\<rparr>)
                (setThis me (\<lambda>r. r\<lparr>powerLevel := 0\<rparr>) s)"
  let ?on = "updateBlockState x y (\<lambda>b. b\<lparr>bs_type := ''minecraft:redstone_torch''\<rparr>)
               (setThis me (\<lambda>r. r\<lparr>powerLevel := 15\<rparr>) s)"
  have a: "attachedDir ?rot = opposite ?rot"
    using assms(5) by (auto simp: attachedDir_def opposite_def)
  obtain p where p: "getPower s x y (opposite ?rot) = Some p" using getPower_total by blast
  have me: "compOf s me = Some c" using compOf_entity[OF assms(1,2)] assms(3) by simp
  have eq: "\<forall>n. onScheduledTick n me c x y s
                 = (if p > 0 \<and> powerLevel c \<noteq> 0 then notifyNeighbors n x y ?off
                    else if \<not> p > 0 \<and> powerLevel c = 0 then notifyNeighbors n x y ?on
                    else Some s)"
    using assms(4) rotationAt_Some[OF assms(2)] p a
    by (simp add: onScheduledTick_def RedstoneTorchComponent_onScheduledTick_def Let_def)
  have ret: "\<exists>N s'. \<forall>n \<ge> N. onScheduledTick n me c x y s = Some s'"
  proof -
    consider (off) "p > 0" "powerLevel c \<noteq> 0" | (on) "\<not> p > 0" "powerLevel c = 0"
      | (same) "(p > 0) = (powerLevel c = 0)" by blast
    then show ?thesis
    proof cases
      case off
      have "distinct_ids ?off" using assms(1) by simp
      from notifyNeighbors_returns[OF this, of x y] obtain N s' where
        "\<forall>n \<ge> N. notifyNeighbors n x y ?off = Some s'" by blast
      then have "\<forall>n \<ge> N. onScheduledTick n me c x y s = Some s'" using eq off by simp
      then show ?thesis by blast
    next
      case on
      have "distinct_ids ?on" using assms(1) by simp
      from notifyNeighbors_returns[OF this, of x y] obtain N s' where
        "\<forall>n \<ge> N. notifyNeighbors n x y ?on = Some s'" by blast
      then have "\<forall>n \<ge> N. onScheduledTick n me c x y s = Some s'" using eq on by simp
      then show ?thesis by blast
    next
      case same
      then have "\<forall>n \<ge> 0. onScheduledTick n me c x y s = Some s" using eq by auto
      then show ?thesis by blast
    qed
  qed
  have t: "\<exists>c'. compOf s' me = Some c' \<and> (powerLevel c' = 0 \<longleftrightarrow> p > 0)
                 \<and> (powerLevel c \<in> {0, 15} \<longrightarrow> powerLevel c' \<in> {0, 15})"
    if r: "onScheduledTick n me c x y s = Some s'" for n s'
  proof -
    consider (off) "p > 0" "powerLevel c \<noteq> 0" | (on) "\<not> p > 0" "powerLevel c = 0"
      | (same) "(p > 0) = (powerLevel c = 0)" by blast
    then show ?thesis
    proof cases
      case off
      have n: "notifyNeighbors n x y ?off = Some s'" using r eq off by simp
      have "cascade ?off s'"
        by (rule cascade_notifyNeighbors[OF _ n]) (simp add: assms(1))
      then obtain c' where c': "compOf s' me = Some c'"
        "same_but_level (c\<lparr>powerLevel := 0\<rparr>) c'"
        using me by (auto elim!: cascade_compOf_Some simp: compOf_setThis)
      have "powerLevel c' = 0"
        using same_but_levelD(10)[OF c'(2)] assms(4) by simp
      with c'(1) off show ?thesis by simp
    next
      case on
      have n: "notifyNeighbors n x y ?on = Some s'" using r eq on by simp
      have "cascade ?on s'"
        by (rule cascade_notifyNeighbors[OF _ n]) (simp add: assms(1))
      then obtain c' where c': "compOf s' me = Some c'"
        "same_but_level (c\<lparr>powerLevel := 15\<rparr>) c'"
        using me by (auto elim!: cascade_compOf_Some simp: compOf_setThis)
      have "powerLevel c' = 15"
        using same_but_levelD(10)[OF c'(2)] assms(4) by simp
      with c'(1) on show ?thesis by simp
    next
      case same
      then have "s' = s" using r eq by auto
      with me same show ?thesis by auto
    qed
  qed
  have o: "\<forall>d. getPowerOutput s x y d c = Some (if d = opposite ?rot then 0 else powerLevel c)"
    using assms(4) rotationAt_Some[OF assms(2)] a by (simp add: getPowerOutput_def)
  have inner: "getPower s x y (opposite ?rot) = Some p
              \<and> (\<forall>n. onScheduledTick n me c x y s
                       = (if p > 0 \<and> powerLevel c \<noteq> 0 then notifyNeighbors n x y ?off
                          else if \<not> p > 0 \<and> powerLevel c = 0 then notifyNeighbors n x y ?on
                          else Some s))
              \<and> (\<exists>N s'. \<forall>n \<ge> N. onScheduledTick n me c x y s = Some s')
              \<and> (\<forall>n s'. onScheduledTick n me c x y s = Some s' \<longrightarrow>
                    (\<exists>c'. compOf s' me = Some c'
                       \<and> (powerLevel c' = 0 \<longleftrightarrow> p > 0)
                       \<and> (powerLevel c \<in> {0, 15} \<longrightarrow> powerLevel c' \<in> {0, 15})))"
  proof -
    have t': "\<forall>n s'. onScheduledTick n me c x y s = Some s' \<longrightarrow>
                    (\<exists>c'. compOf s' me = Some c'
                       \<and> (powerLevel c' = 0 \<longleftrightarrow> p > 0)
                       \<and> (powerLevel c \<in> {0, 15} \<longrightarrow> powerLevel c' \<in> {0, 15}))"
      using t by blast
    show ?thesis by (intro conjI; fact p eq ret t')
  qed
  have ex: "\<exists>p. getPower s x y (opposite ?rot) = Some p
              \<and> (\<forall>n. onScheduledTick n me c x y s
                       = (if p > 0 \<and> powerLevel c \<noteq> 0 then notifyNeighbors n x y ?off
                          else if \<not> p > 0 \<and> powerLevel c = 0 then notifyNeighbors n x y ?on
                          else Some s))
              \<and> (\<exists>N s'. \<forall>n \<ge> N. onScheduledTick n me c x y s = Some s')
              \<and> (\<forall>n s'. onScheduledTick n me c x y s = Some s' \<longrightarrow>
                    (\<exists>c'. compOf s' me = Some c'
                       \<and> (powerLevel c' = 0 \<longleftrightarrow> p > 0)
                       \<and> (powerLevel c \<in> {0, 15} \<longrightarrow> powerLevel c' \<in> {0, 15})))"
    by (rule exI[of _ p]) (rule inner)
  show ?thesis by (rule conjI[OF a conjI[OF ex o]])
qed

theorem torch_scheduled_tick_witness:
  "distinct_ids torchLit
   \<and> getBlockEntity torchLit 1 1
       = Some (1, (newEntity ''minecraft:redstone_torch'' 1 1)
                    \<lparr>redstone := Some ((new_component RedstoneTorchComponent)\<lparr>powerLevel := 15\<rparr>)\<rparr>)
   \<and> getPower torchLit 1 1 2 = Some 15
   \<and> getPowerOutput torchLit 1 1 2 ((new_component RedstoneTorchComponent)\<lparr>powerLevel := 15\<rparr>)
       = Some 0
   \<and> getPowerOutput torchLit 1 1 0 ((new_component RedstoneTorchComponent)\<lparr>powerLevel := 15\<rparr>)
       = Some 15
   \<and> onScheduledTick 3 1 ((new_component RedstoneTorchComponent)\<lparr>powerLevel := 15\<rparr>) 1 1 torchLit
       = notifyNeighbors 3 1 1
           (updateBlockState 1 1 (\<lambda>b. b\<lparr>bs_type := ''minecraft:redstone_torch_off''\<rparr>)
              (setThis 1 (\<lambda>r. r\<lparr>powerLevel := 0\<rparr>) torchLit))
   \<and> map_option levels
        (onScheduledTick 3 1 ((new_component RedstoneTorchComponent)\<lparr>powerLevel := 15\<rparr>) 1 1 torchLit)
      = Some [(1, Some 0), (2, Some 15)]
   \<and> map_option blocks
        (onScheduledTick 3 1 ((new_component RedstoneTorchComponent)\<lparr>powerLevel := 15\<rparr>) 1 1 torchLit)
      = Some [(1, (1, 1), ''minecraft:redstone_torch_off''), (2, (1, 2), ''minecraft:redstone_block'')]"
proof -
  let ?c = "(new_component RedstoneTorchComponent)\<lparr>powerLevel := 15\<rparr>"
  let ?e = "(newEntity ''minecraft:redstone_torch'' 1 1)\<lparr>redstone := Some ?c\<rparr>"
  let ?off = "updateBlockState 1 1 (\<lambda>b. b\<lparr>bs_type := ''minecraft:redstone_torch_off''\<rparr>)
                (setThis 1 (\<lambda>r. r\<lparr>powerLevel := 0\<rparr>) torchLit)"
  have h1: "distinct_ids torchLit" by code_simp
  have h2: "getBlockEntity torchLit 1 1 = Some (1, ?e)" by code_simp
  have h3: "redstone ?e = Some ?c" by simp
  have h4: "cls ?c = RedstoneTorchComponent" by code_simp
  have h5: "bs_rotation (blockState ?e) \<in> {0, 1, 2, 3}" by code_simp
  have rot: "opposite (bs_rotation (blockState ?e)) = 2" by code_simp
  have g: "getPower torchLit 1 1 2 = Some 15" by code_simp
  have l: "powerLevel ?c = 15" by simp
  note t = torch_scheduled_tick[OF h1 h2 h3 h4 h5, unfolded rot]
  from t obtain p where p: "getPower torchLit 1 1 2 = Some p"
    and q: "\<forall>n. onScheduledTick n 1 ?c 1 1 torchLit
                = (if p > 0 \<and> powerLevel ?c \<noteq> 0 then notifyNeighbors n 1 1 ?off
                   else if \<not> p > 0 \<and> powerLevel ?c = 0
                   then notifyNeighbors n 1 1
                          (updateBlockState 1 1 (\<lambda>b. b\<lparr>bs_type := ''minecraft:redstone_torch''\<rparr>)
                             (setThis 1 (\<lambda>r. r\<lparr>powerLevel := 15\<rparr>) torchLit))
                   else Some torchLit)"
    by blast
  from p g have p15: "p = 15" by simp
  have r: "onScheduledTick 3 1 ?c 1 1 torchLit = notifyNeighbors 3 1 1 ?off"
    using q[rule_format, of 3] p15 l by simp
  have v: "map_option levels (notifyNeighbors 3 1 1 ?off) = Some [(1, Some 0), (2, Some 15)]"
    "map_option blocks (notifyNeighbors 3 1 1 ?off)
      = Some [(1, (1, 1), ''minecraft:redstone_torch_off''), (2, (1, 2), ''minecraft:redstone_block'')]"
    by code_simp+
  from t have "\<forall>d. getPowerOutput torchLit 1 1 d ?c = Some (if d = 2 then 0 else powerLevel ?c)"
    by blast
  then have o: "getPowerOutput torchLit 1 1 2 ?c = Some 0" "getPowerOutput torchLit 1 1 0 ?c = Some 15"
    using l by simp_all
  show ?thesis
    using h1 h2 g o r v[folded r] by (intro conjI) assumption+
qed

subsection \<open>The wire's neighbor update\<close>

lemma wiresUnlit_reachable:
  "run [placeOrInteract 20 ''minecraft:redstone_dust'' 1 0,
        placeOrInteract 20 ''minecraft:redstone_dust'' 2 0,
        placeOrInteract 20 ''minecraft:redstone_block'' 0 0] (RedstoneSimulator 64 48)
   = Some wiresUnlit"
  by code_simp

text \<open>
  Claim C8. On a neighbor update of a wire, the level it computes is the maximum over
  its four cardinal neighbors of a wire neighbor's level minus one floored at 0 and of
  any other neighbor's output toward the wire. Exactly when that level differs from the
  wire's current one, the wire assigns it, to its logic and to its visual state, and
  notifies its neighbors; otherwise nothing changes. Notifying the neighbors runs, for
  the directions 0 to 3 in this order, the neighbor update of the block found in that
  direction. The update returns, with the same state for every stack bound from some
  depth on. When it returns, the level of the wire is the maximum that its neighbors ask
  for in the state returned, and after a change this holds of every wire among its four
  neighbors too. The wire's power output is its current level in every direction.
\<close>

theorem wire_neighbor_update:
  assumes "distinct_ids s" "getBlockEntity s x y = Some (me, e)" "redstone e = Some c"
    "cls c = RedstoneDustComponent"
  shows "\<exists>m. wireLevel s x y = Some m
           \<and> (\<forall>n fx fy. onNeighborUpdate n me c x y fx fy s
                  = (if m \<noteq> powerLevel c then notifyNeighbors n x y (dustAssign me x y m s)
                     else Some s))
           \<and> map_option powerLevel (compOf (dustAssign me x y m s) me) = Some m
           \<and> map_option bs_powerLevel (stateOf (dustAssign me x y m s) me) = Some m
           \<and> (\<forall>n a. notifyNeighbors (Suc n) x y a
                  = Option.bind (notifyDir_body (notifyNeighbors n) x y 0 a)
                      (\<lambda>a0. Option.bind (notifyDir_body (notifyNeighbors n) x y 1 a0)
                         (\<lambda>a1. Option.bind (notifyDir_body (notifyNeighbors n) x y 2 a1)
                            (notifyDir_body (notifyNeighbors n) x y 3))))
           \<and> (\<forall>n d a j e' c'.
                  getBlockEntity a (x + fst (toVector d)) (y + snd (toVector d)) = Some (j, e')
                  \<and> redstone e' = Some c'
                  \<longrightarrow> notifyDir_body (notifyNeighbors n) x y d a
                      = onNeighborUpdate n j c' (x + fst (toVector d)) (y + snd (toVector d)) x y a)
           \<and> (\<exists>N s'. \<forall>n \<ge> N. \<forall>fx fy. onNeighborUpdate n me c x y fx fy s = Some s')
           \<and> (\<forall>n fx fy s'. onNeighborUpdate n me c x y fx fy s = Some s' \<longrightarrow>
                  (\<exists>l. wireAt s' x y = Some l \<and> wireLevel s' x y = Some l)
                  \<and> (m \<noteq> powerLevel c \<longrightarrow>
                       (\<forall>d \<in> {0, 1, 2, 3}. \<forall>l.
                           wireAt s' (x + fst (toVector d)) (y + snd (toVector d)) = Some l
                           \<longrightarrow> wireLevel s' (x + fst (toVector d)) (y + snd (toVector d))
                               = Some l)))
           \<and> (\<forall>d. getPowerOutput s x y d c = Some (powerLevel c))"
proof -
  obtain m where m: "dustMaxPower s x y = Some m" using dustMaxPower_total by blast
  have w: "wireLevel s x y = Some m" using m by (simp add: dustMaxPower_wireLevel)
  have u: "\<forall>n fx fy. onNeighborUpdate n me c x y fx fy s
             = (if m \<noteq> powerLevel c then notifyNeighbors n x y (dustAssign me x y m s)
                else Some s)"
    using assms(4) m
    by (auto simp: onNeighborUpdate_def onNeighborUpdate_body_def
                   RedstoneDustComponent_onNeighborUpdate_def)
  have me: "compOf s me = Some c" using compOf_entity[OF assms(1,2)] assms(3) by simp
  have l: "map_option powerLevel (compOf (dustAssign me x y m s) me) = Some m"
    by (simp add: compOf_dustAssign me)
  have b: "map_option bs_powerLevel (stateOf (dustAssign me x y m s) me) = Some m"
    unfolding dustAssign_def
    by (simp add: stateOf_updateBlockState_entity[OF assms(1,2)])
  have nn: "\<forall>n a. notifyNeighbors (Suc n) x y a
                  = Option.bind (notifyDir_body (notifyNeighbors n) x y 0 a)
                      (\<lambda>a0. Option.bind (notifyDir_body (notifyNeighbors n) x y 1 a0)
                         (\<lambda>a1. Option.bind (notifyDir_body (notifyNeighbors n) x y 2 a1)
                            (notifyDir_body (notifyNeighbors n) x y 3)))"
    by simp
  have nd: "\<forall>n d a j e' c'.
                  getBlockEntity a (x + fst (toVector d)) (y + snd (toVector d)) = Some (j, e')
                  \<and> redstone e' = Some c'
                  \<longrightarrow> notifyDir_body (notifyNeighbors n) x y d a
                      = onNeighborUpdate n j c' (x + fst (toVector d)) (y + snd (toVector d)) x y a"
    by (simp add: notifyDir_body_def onNeighborUpdate_def split_beta Let_def)
  have o: "\<forall>d. getPowerOutput s x y d c = Some (powerLevel c)"
    using assms(4) by (simp add: getPowerOutput_def)
  let ?a = "dustAssign me x y m s"
  have da: "distinct_ids ?a" using assms(1) by (simp add: dustAssign_def)
  have ws: "wireAt s x y = Some (powerLevel c)"
    using assms(2,3,4) by (simp add: wireAt_def)
  have ret: "\<exists>N s'. \<forall>n \<ge> N. \<forall>fx fy. onNeighborUpdate n me c x y fx fy s = Some s'"
  proof (cases "m = powerLevel c")
    case True
    then have "\<forall>n \<ge> 0. \<forall>fx fy. onNeighborUpdate n me c x y fx fy s = Some s" using u by simp
    then show ?thesis by blast
  next
    case False
    from notifyNeighbors_returns[OF da, of x y] obtain N s' where
      "\<forall>n \<ge> N. notifyNeighbors n x y ?a = Some s'" by blast
    then have "\<forall>n \<ge> N. \<forall>fx fy. onNeighborUpdate n me c x y fx fy s = Some s'"
      using u False by simp
    then show ?thesis by blast
  qed
  have fin: "\<forall>n fx fy s'. onNeighborUpdate n me c x y fx fy s = Some s' \<longrightarrow>
                  (\<exists>l. wireAt s' x y = Some l \<and> wireLevel s' x y = Some l)
                  \<and> (m \<noteq> powerLevel c \<longrightarrow>
                       (\<forall>d \<in> {0, 1, 2, 3}. \<forall>l.
                           wireAt s' (x + fst (toVector d)) (y + snd (toVector d)) = Some l
                           \<longrightarrow> wireLevel s' (x + fst (toVector d)) (y + snd (toVector d))
                               = Some l))"
  proof (intro allI impI)
    fix n fx fy s' assume r: "onNeighborUpdate n me c x y fx fy s = Some s'"
    show "(\<exists>l. wireAt s' x y = Some l \<and> wireLevel s' x y = Some l)
          \<and> (m \<noteq> powerLevel c \<longrightarrow>
               (\<forall>d \<in> {0, 1, 2, 3}. \<forall>l.
                   wireAt s' (x + fst (toVector d)) (y + snd (toVector d)) = Some l
                   \<longrightarrow> wireLevel s' (x + fst (toVector d)) (y + snd (toVector d)) = Some l))"
    proof (cases "m = powerLevel c")
      case True
      then have "s' = s" using r u by simp
      with ws w True show ?thesis by simp
    next
      case False
      have n: "notifyNeighbors n x y ?a = Some s'" using r u False by simp
      note st = settle_notifyNeighbors[OF da n]
      have around: "\<forall>d \<in> {0, 1, 2, 3}.
                      unsettled s' (x + fst (toVector d), y + snd (toVector d)) = None"
        by (rule st[THEN conjunct1])
      have kept: "\<forall>p. unsettled ?a p = None \<longrightarrow> unsettled s' p = None"
        by (rule st[THEN conjunct2])
      have "unsettled ?a (x, y) = None"
        by (rule settled_dustAssign[OF assms w])
      with kept have self: "unsettled s' (x, y) = None" by blast
      have cas: "cascade s s'"
        by (rule cascade_onNeighborUpdate[OF assms(1) getBlockEntity_SomeD(1)[OF assms(2)]
              assms(3) r])
      have "wireAt s' x y \<noteq> None" using cascade_wireAt[OF cas, of x y] ws by simp
      then obtain l where l: "wireAt s' x y = Some l" by blast
      with self have "wireLevel s' x y = Some l" by (simp add: unsettled_None_iff)
      with l have one: "\<exists>l. wireAt s' x y = Some l \<and> wireLevel s' x y = Some l" by blast
      have two: "\<forall>d \<in> {0, 1, 2, 3}. \<forall>l.
                   wireAt s' (x + fst (toVector d)) (y + snd (toVector d)) = Some l
                   \<longrightarrow> wireLevel s' (x + fst (toVector d)) (y + snd (toVector d)) = Some l"
      proof
        fix d :: int assume "d \<in> {0, 1, 2, 3}"
        with around have "unsettled s' (x + fst (toVector d), y + snd (toVector d)) = None"
          by (rule bspec)
        then show "\<forall>l. wireAt s' (x + fst (toVector d)) (y + snd (toVector d)) = Some l
                   \<longrightarrow> wireLevel s' (x + fst (toVector d)) (y + snd (toVector d)) = Some l"
          by (simp only: unsettled_None_iff)
      qed
      from one two show ?thesis by blast
    qed
  qed
  show ?thesis
    by (rule exI[of _ m]) (intro conjI; fact w u l b nn nd ret fin o)
qed

theorem wire_neighbor_update_witness:
  "distinct_ids wiresUnlit
   \<and> getBlockEntity wiresUnlit 1 0 = Some (1, newEntity ''minecraft:redstone_dust'' 1 0)
   \<and> redstone (newEntity ''minecraft:redstone_dust'' 1 0) = Some (new_component RedstoneDustComponent)
   \<and> powerLevel (new_component RedstoneDustComponent) = 0
   \<and> wireLevel wiresUnlit 1 0 = Some 15
   \<and> onNeighborUpdate 3 1 (new_component RedstoneDustComponent) 1 0 0 0 wiresUnlit
       = notifyNeighbors 3 1 0 (dustAssign 1 1 0 15 wiresUnlit)
   \<and> map_option levels
        (onNeighborUpdate 3 1 (new_component RedstoneDustComponent) 1 0 0 0 wiresUnlit)
       = Some [(1, Some 15), (2, Some 14), (3, Some 15)]
   \<and> Option.bind (onNeighborUpdate 3 1 (new_component RedstoneDustComponent) 1 0 0 0 wiresUnlit)
        (\<lambda>s'. wireLevel s' 1 0) = Some 15
   \<and> Option.bind (onNeighborUpdate 3 1 (new_component RedstoneDustComponent) 1 0 0 0 wiresUnlit)
        (\<lambda>s'. wireLevel s' 2 0) = Some 14
   \<and> getPowerOutput wiresUnlit 1 0 3 (new_component RedstoneDustComponent) = Some 0"
proof -
  let ?c = "new_component RedstoneDustComponent"
  let ?e = "newEntity ''minecraft:redstone_dust'' 1 0"
  have h1: "distinct_ids wiresUnlit" by code_simp
  have h2: "getBlockEntity wiresUnlit 1 0 = Some (1, ?e)" by code_simp
  have h3: "redstone ?e = Some ?c" by code_simp
  have h4: "cls ?c = RedstoneDustComponent" by code_simp
  have w: "wireLevel wiresUnlit 1 0 = Some 15" by code_simp
  have p: "powerLevel ?c = 0" by code_simp
  from wire_neighbor_update[OF h1 h2 h3 h4] w p
  have r: "onNeighborUpdate 3 1 ?c 1 0 0 0 wiresUnlit
           = notifyNeighbors 3 1 0 (dustAssign 1 1 0 15 wiresUnlit)"
    and o: "getPowerOutput wiresUnlit 1 0 3 ?c = Some 0"
    by auto
  have v: "map_option levels (notifyNeighbors 3 1 0 (dustAssign 1 1 0 15 wiresUnlit))
           = Some [(1, Some 15), (2, Some 14), (3, Some 15)]"
    by code_simp
  have v2: "Option.bind (notifyNeighbors 3 1 0 (dustAssign 1 1 0 15 wiresUnlit))
              (\<lambda>s'. wireLevel s' 1 0) = Some 15"
    "Option.bind (notifyNeighbors 3 1 0 (dustAssign 1 1 0 15 wiresUnlit))
              (\<lambda>s'. wireLevel s' 2 0) = Some 14"
    by code_simp+
  show ?thesis
    using h1 h2 h3 p w r v[folded r] v2[folded r] o by (intro conjI) assumption+
qed

end
